theory Spec2Isabelle
  imports
    Main
    "HOL-Library.Char_ord"
    "HOL-Library.List_Lexorder"
    "HOL-Library.Product_Lexorder"
    "HOL-Library.Multiset"
begin

section \<open>Python values and exceptions\<close>

text \<open>
  The exceptions the modelled functions can raise. Every \<open>raise\<close> of the source, and
  every exception a library call of the source raises, is a value \<open>Inl e\<close> of a result.
\<close>

datatype py_error =
  ValueError | TypeError | AttributeError | KeyError | OverflowError | IntegrityError

section \<open>The store (database/db.py)\<close>

text \<open>
  A value held in a column of table \<open>comment_periods\<close>. A calendar date, which the source
  passes and stores as a text \<open>YYYY-MM-DD\<close>, is modelled by its day number \<open>Day n\<close>: on
  such texts SQLite's comparison is the order of the days, and SQLite's \<open>date()\<close> and
  Python's \<open>strftime('%Y-%m-%d')\<close> both give the same text back. Python's \<open>None\<close> is
  SQL's \<open>NULL\<close>.
\<close>

datatype sqlval = Null | Text string | Num int | Day int

text \<open>A row maps each column name to its value, as \<open>dict(row)\<close> does in the source.\<close>

type_synonym row = "string \<Rightarrow> sqlval"

text \<open>
  The database file: table \<open>comment_periods\<close>, in the order of insertion, table
  \<open>bot_posts\<close> (period id, post type, post URI), and the entry of \<open>comment_periods\<close> in
  \<open>sqlite_sequence\<close>, the largest key AUTOINCREMENT has given out.
\<close>

record database =
  periods :: "row list"
  bot_posts :: "(int \<times> string \<times> string) list"
  seq :: int

definition row_id :: "row \<Rightarrow> int" where
  "row_id r = (case r ''id'' of Num i \<Rightarrow> i | _ \<Rightarrow> 0)"

text \<open>
  Table \<open>comment_periods\<close> as database/migrate_docket_id.py declares it: the defaults of
  the columns an INSERT does not name, the AUTOINCREMENT key (one more than the largest
  key given out so far and than every key of the table), the columns declared
  \<open>NOT NULL\<close> that have no default, and the constraint
  \<open>CHECK (comment_end_date >= posted_date)\<close>, which a \<open>NULL\<close> operand satisfies.
\<close>

definition default_row :: "int \<Rightarrow> string \<Rightarrow> row" where
  "default_row i now =
     (\<lambda>c. Null)
       (''id'' := Num i,
        ''posted_new'' := Num 0,
        ''posted_7day_reminder'' := Num 0,
        ''posted_3day_reminder'' := Num 0,
        ''posted_last_day'' := Num 0,
        ''created_at'' := Text now,
        ''updated_at'' := Text now)"

definition next_id :: "database \<Rightarrow> int" where
  "next_id db = 1 + max (seq db) (foldr max (map row_id (periods db)) 0)"

definition not_null_columns :: "string list" where
  "not_null_columns =
     [''document_id'', ''title'', ''agency_id'', ''agency_name'', ''posted_date'',
      ''comment_end_date'', ''regulations_url'']"

definition not_null_ok :: "row \<Rightarrow> bool" where
  "not_null_ok r = list_all (\<lambda>c. r c \<noteq> Null) not_null_columns"

definition check_dates :: "row \<Rightarrow> bool" where
  "check_dates r =
     (case r ''comment_end_date'' of
        Day e \<Rightarrow> (case r ''posted_date'' of Day p \<Rightarrow> p \<le> e | _ \<Rightarrow> True)
      | _ \<Rightarrow> True)"

text \<open>
  The arguments of one call of \<open>upsert_comment_period\<close>: the eight named parameters and
  the keyword dictionary \<open>**kwargs\<close>. A named parameter is a string (for the two dates
  a date \<open>YYYY-MM-DD\<close>, held as its day number) or \<open>None\<close>, which the scraper passes
  for an attribute the API gives as \<open>null\<close>.
\<close>

record draft =
  document_id :: "string option"
  docket_id :: "string option"
  title :: "string option"
  agency_id :: "string option"
  agency_name :: "string option"
  posted_date :: "int option"
  comment_end_date :: "int option"
  regulations_url :: "string option"
  kwargs :: "string \<rightharpoonup> sqlval"

text \<open>The value a named parameter binds in the statement: \<open>None\<close> is \<open>NULL\<close>.\<close>

definition sql_text :: "string option \<Rightarrow> sqlval" where
  "sql_text x = (case x of None \<Rightarrow> Null | Some s \<Rightarrow> Text s)"

definition sql_day :: "int option \<Rightarrow> sqlval" where
  "sql_day x = (case x of None \<Rightarrow> Null | Some n \<Rightarrow> Day n)"

definition optional_fields :: "string list" where
  "optional_fields =
     [''document_type'', ''comment_start_date'', ''abstract'', ''summary'',
      ''federal_register_url'', ''details_url'', ''topics'', ''keywords'', ''source_url'']"

text \<open>
  \<open>{k: v for k, v in kwargs.items() if k in optional_fields and v is not None}\<close>, and its
  items as a list. The keys of this dictionary all lie in \<open>optional_fields\<close>, so the list
  enumerates them along \<open>optional_fields\<close>; the statement built from them does not depend
  on the order of its columns.
\<close>

definition provided_optional :: "(string \<rightharpoonup> sqlval) \<Rightarrow> (string \<rightharpoonup> sqlval)" where
  "provided_optional kw =
     (\<lambda>k. case kw k of
            None \<Rightarrow> None
          | Some v \<Rightarrow> if k \<in> set optional_fields \<and> v \<noteq> Null then Some v else None)"

definition provided_items :: "(string \<rightharpoonup> sqlval) \<Rightarrow> (string \<times> sqlval) list" where
  "provided_items kw =
     List.map_filter (\<lambda>k. map_option (Pair k) (provided_optional kw k)) optional_fields"

definition base_fields :: "string list" where
  "base_fields =
     [''document_id'', ''docket_id'', ''title'', ''agency_id'', ''agency_name'',
      ''posted_date'', ''comment_end_date'', ''regulations_url'']"

definition fields_of :: "draft \<Rightarrow> string list" where
  "fields_of d = base_fields @ map fst (provided_items (kwargs d))"

definition values_of :: "draft \<Rightarrow> sqlval list" where
  "values_of d =
     [sql_text (document_id d), sql_text (docket_id d), sql_text (title d),
      sql_text (agency_id d), sql_text (agency_name d), sql_day (posted_date d),
      sql_day (comment_end_date d), sql_text (regulations_url d)]
     @ map snd (provided_items (kwargs d))"

text \<open>The columns a statement names, set to the values it gives; the others are kept.\<close>

definition assign :: "row \<Rightarrow> (string \<times> sqlval) list \<Rightarrow> row" where
  "assign r fvs = (\<lambda>c. case map_of fvs c of Some v \<Rightarrow> v | None \<Rightarrow> r c)"

text \<open>
  \<open>DO UPDATE SET field=excluded.field\<close> for every field of the statement but
  \<open>document_id\<close>, and \<open>updated_at=CURRENT_TIMESTAMP\<close>.
\<close>

definition do_update :: "string \<Rightarrow> draft \<Rightarrow> row \<Rightarrow> row" where
  "do_update now d r =
     (assign r (filter (\<lambda>(f, v). f \<noteq> ''document_id'') (zip (fields_of d) (values_of d))))
       (''updated_at'' := Text now)"

text \<open>
  The rows \<open>WHERE document_id = ?\<close> selects, which are also the rows an insertion of
  that \<open>document_id\<close> conflicts with: no row when the parameter is \<open>None\<close>.
\<close>

definition has_document :: "string option \<Rightarrow> row \<Rightarrow> bool" where
  "has_document doc r = (case doc of None \<Rightarrow> False | Some s \<Rightarrow> r ''document_id'' = Text s)"

text \<open>
  \<open>upsert_comment_period\<close>. \<open>now\<close> is the value of CURRENT_TIMESTAMP. The statement
  takes the next key, checks \<open>NOT NULL\<close> and \<open>CHECK\<close> on the row to insert, and then
  inserts it or, on a conflict on \<open>document_id\<close>, updates the row in place under the
  same constraints; the key is used up in both cases. A violated constraint raises
  \<open>IntegrityError\<close> before the commit, and the database is as it was. Each call opens a
  connection of its own, so \<open>cursor.lastrowid\<close> is the new key after an insertion and 0
  after an update; the source then reads the key back by \<open>document_id\<close>.
\<close>

definition upsert_comment_period ::
    "string \<Rightarrow> draft \<Rightarrow> database \<Rightarrow> py_error + (int \<times> database)" where
  "upsert_comment_period now d db =
     (let key = next_id db;
          new = assign (default_row key now) (zip (fields_of d) (values_of d))
      in if \<not> not_null_ok new \<or> \<not> check_dates new then Inl IntegrityError
         else
           (case find (has_document (document_id d)) (periods db) of
              None \<Rightarrow>
                (let db' = db\<lparr>periods := periods db @ [new], seq := key\<rparr>;
                     lastrowid = row_id new
                 in if lastrowid > 0 then Inr (lastrowid, db')
                    else (case find (has_document (document_id d)) (periods db') of
                            None \<Rightarrow> Inl TypeError
                          | Some r \<Rightarrow> Inr (row_id r, db')))
            | Some old \<Rightarrow>
                if \<not> not_null_ok (do_update now d old) \<or> \<not> check_dates (do_update now d old)
                then Inl IntegrityError
                else
                  (let db' = db\<lparr>periods :=
                                map (\<lambda>r. if has_document (document_id d) r
                                         then do_update now d r else r)
                                  (periods db),
                              seq := key\<rparr>;
                       lastrowid = (0::int)
                   in if lastrowid > 0 then Inr (lastrowid, db')
                      else (case find (has_document (document_id d)) (periods db') of
                              None \<Rightarrow> Inl TypeError
                            | Some r \<Rightarrow> Inr (row_id r, db')))))"

text \<open>
  A sequence of calls of \<open>upsert_comment_period\<close>, each with its own timestamp. A call
  that raises leaves the store as it was, and the next call runs on that store.
\<close>

fun upsert_seq :: "(string \<times> draft) list \<Rightarrow> database \<Rightarrow> database" where
  "upsert_seq [] db = db"
| "upsert_seq ((now, d) # cs) db =
     (case upsert_comment_period now d db of
        Inl e \<Rightarrow> upsert_seq cs db
      | Inr (i, db') \<Rightarrow> upsert_seq cs db')"

text \<open>
  A draft the table accepts: the parameters of the columns \<open>NOT NULL\<close> are given, and
  \<open>comment_end_date\<close> is not before \<open>posted_date\<close>.
\<close>

definition accepted :: "draft \<Rightarrow> bool" where
  "accepted d =
     (document_id d \<noteq> None \<and> title d \<noteq> None \<and> agency_id d \<noteq> None
      \<and> agency_name d \<noteq> None \<and> regulations_url d \<noteq> None
      \<and> (case posted_date d of
             None \<Rightarrow> False
           | Some p \<Rightarrow> (case comment_end_date d of None \<Rightarrow> False | Some e \<Rightarrow> p \<le> e)))"

text \<open>
  The fields present in a draft, with their values: the named parameters and the optional
  keywords whose value is not \<open>None\<close>.
\<close>

definition present :: "draft \<Rightarrow> (string \<times> sqlval) list" where
  "present d = filter (\<lambda>(f, v). v \<noteq> Null) (zip (fields_of d) (values_of d))"

text \<open>
  \<open>get_closing_soon\<close>. \<open>today\<close> is the day of \<open>datetime.now()\<close>. The rows come back
  ordered by \<open>agency_id, title\<close>.
\<close>

definition text_of :: "sqlval \<Rightarrow> string" where
  "text_of v = (case v of Text s \<Rightarrow> s | _ \<Rightarrow> [])"

definition select_closing :: "int \<Rightarrow> string \<Rightarrow> database \<Rightarrow> row list" where
  "select_closing target_date reminder_field db =
     sort_key (\<lambda>r. (text_of (r ''agency_id''), text_of (r ''title'')))
       (filter (\<lambda>r. r ''comment_end_date'' = Day target_date \<and> r reminder_field = Num 0)
          (periods db))"

definition reminder_field :: "int \<Rightarrow> py_error + string" where
  "reminder_field days =
     (if days = 7 then Inr ''posted_7day_reminder''
      else if days = 3 then Inr ''posted_3day_reminder''
      else if days = 1 then Inr ''posted_last_day''
      else Inl ValueError)"

definition get_closing_soon :: "int \<Rightarrow> int \<Rightarrow> database \<Rightarrow> py_error + row list" where
  "get_closing_soon today days db =
     (let target_date = today + days
      in case reminder_field days of
           Inl e \<Rightarrow> Inl e
         | Inr field \<Rightarrow> Inr (select_closing target_date field db))"

text \<open>
  \<open>mark_posted\<close>: the flag of the post type is set to 1 in the row of that id, and a
  post URI that is neither \<open>None\<close> nor empty is recorded in \<open>bot_posts\<close>.
\<close>

definition field_map :: "string \<rightharpoonup> string" where
  "field_map =
     [''new'' \<mapsto> ''posted_new'',
      ''7day'' \<mapsto> ''posted_7day_reminder'',
      ''3day'' \<mapsto> ''posted_3day_reminder'',
      ''last_day'' \<mapsto> ''posted_last_day'']"

definition mark_posted ::
    "int \<Rightarrow> string \<Rightarrow> string option \<Rightarrow> database \<Rightarrow> py_error + database" where
  "mark_posted period_id post_type post_uri db =
     (case field_map post_type of
        None \<Rightarrow> Inl ValueError
      | Some field \<Rightarrow>
          (let rows' = map (\<lambda>r. if r ''id'' = Num period_id then r(field := Num 1) else r)
                         (periods db);
               posts' = (case post_uri of
                           None \<Rightarrow> bot_posts db
                         | Some uri \<Rightarrow>
                             if uri = [] then bot_posts db
                             else bot_posts db @ [(period_id, post_type, uri)])
           in Inr (db\<lparr>periods := rows', bot_posts := posts'\<rparr>)))"

text \<open>The four one-shot flags, and whether a flag of the row of an id is set.\<close>

definition flag_fields :: "string list" where
  "flag_fields =
     [''posted_new'', ''posted_7day_reminder'', ''posted_3day_reminder'', ''posted_last_day'']"

definition flag_set :: "database \<Rightarrow> int \<Rightarrow> string \<Rightarrow> bool" where
  "flag_set db i f = list_ex (\<lambda>r. r ''id'' = Num i \<and> r f = Num 1) (periods db)"

section \<open>Strings\<close>

text \<open>
  \<open>s.split(sep)\<close> for a separator that is not empty, \<open>s.rstrip('/')\<close>,
  \<open>sep.join(xs)\<close>, and the blanks \<open>int\<close> skips at both ends of a string.
\<close>

function split_acc :: "string \<Rightarrow> string \<Rightarrow> string \<Rightarrow> string list" where
  "split_acc sep acc [] = [rev acc]"
| "split_acc sep acc (c # cs) =
     (if sep \<noteq> [] \<and> take (length sep) (c # cs) = sep
      then rev acc # split_acc sep [] (drop (length sep) (c # cs))
      else split_acc sep (c # acc) cs)"
  by pat_completeness auto
termination
  by (relation "measure (\<lambda>(sep, acc, s). length s)") auto

definition split_on :: "string \<Rightarrow> string \<Rightarrow> string list" where
  "split_on sep s = split_acc sep [] s"

definition rstrip_slash :: "string \<Rightarrow> string" where
  "rstrip_slash s = rev (dropWhile (\<lambda>c. c = CHR ''/'') (rev s))"

fun join :: "string \<Rightarrow> string list \<Rightarrow> string" where
  "join sep [] = []"
| "join sep [x] = x"
| "join sep (x # y # ys) = x @ sep @ join sep (y # ys)"

definition is_space :: "char \<Rightarrow> bool" where
  "is_space c =
     (c \<in> set [CHR 0x09, CHR 0x0A, CHR 0x0B, CHR 0x0C, CHR 0x0D, CHR 0x20, CHR 0x85,
                CHR 0xA0])"

definition strip :: "string \<Rightarrow> string" where
  "strip s = rev (dropWhile is_space (rev (dropWhile is_space s)))"

definition is_digit :: "char \<Rightarrow> bool" where
  "is_digit c = (CHR ''0'' \<le> c \<and> c \<le> CHR ''9'')"

definition digits_value :: "string \<Rightarrow> int" where
  "digits_value ds = foldl (\<lambda>n c. 10 * n + (of_char c - 48)) 0 ds"

text \<open>
  What the interpreter and the platform fix: the limit of \<open>int\<close> on the number of digits
  of a string (\<open>sys.get_int_max_str_digits()\<close>, 0 for no limit), and the largest length
  \<open>time.sleep\<close> accepts.
\<close>

record platform =
  int_max_str_digits :: nat
  sleep_max :: int

text \<open>
  \<open>int(s)\<close> on a string: blanks around (the characters \<open>is_space\<close> lists, which are
  not all those \<open>str.strip\<close> removes), a sign, and decimal digits in groups that single
  underscores separate; anything else raises \<open>ValueError\<close>, and so do more digits than the
  limit. A header value holds characters up to 255, among which the decimal digits are the
  ASCII ones.
\<close>

definition py_int :: "platform \<Rightarrow> string \<Rightarrow> py_error + int" where
  "py_int py s =
     (let t = strip s;
          negative = (t \<noteq> [] \<and> hd t = CHR ''-'');
          u = (if t \<noteq> [] \<and> (hd t = CHR ''-'' \<or> hd t = CHR ''+'') then tl t else t);
          groups = split_on ''_'' u
      in if list_all (\<lambda>g. g \<noteq> [] \<and> list_all is_digit g) groups
         then
           if 0 < int_max_str_digits py \<and> int_max_str_digits py < length (concat groups)
           then Inl ValueError
           else Inr (if negative then - digits_value (concat groups)
                     else digits_value (concat groups))
         else Inl ValueError)"

section \<open>The fetch engine (scrapers/base.py)\<close>

text \<open>
  A value of Python as \<open>json.loads\<close> builds it (numbers that are integers), which is also
  what the fields of a period dictionary hold. A dictionary is the list of its items.
\<close>

datatype pyval =
    PNone
  | PBool bool
  | PInt int
  | PStr string
  | PList "pyval list"
  | PDict "(string \<times> pyval) list"

text \<open>
  What the caller reads of a \<open>requests.Response\<close>: the status, the headers, and the value
  of \<open>response.json()\<close>, \<open>None\<close> when the body is not JSON and the call raises
  \<open>ValueError\<close>.
\<close>

record response =
  status_code :: int
  headers :: "string \<rightharpoonup> string"
  json :: "pyval option"

text \<open>
  What one call of \<open>session.get\<close> does: it returns a response, or raises \<open>Timeout\<close>,
  \<open>ConnectionError\<close> or another \<open>RequestException\<close>.
\<close>

datatype outcome = Responded response | Timeout | ConnectionError | RequestException

text \<open>What a call of \<open>fetch_page\<close> does besides returning: requests and sleeps, in order.\<close>

datatype event = Get nat | Sleep int

text \<open>
  \<open>time.sleep(secs)\<close> on an integer: \<open>ValueError\<close> on a negative length, and an error on
  a length beyond what the platform accepts (\<open>OverflowError\<close> when the length does not fit
  the clock of the interpreter, \<open>OSError\<close> when the system call refuses it; the model has
  \<open>OverflowError\<close> for both, neither being a \<open>RequestException\<close>).
\<close>

definition py_sleep :: "platform \<Rightarrow> int \<Rightarrow> py_error + event list" where
  "py_sleep py secs =
     (if secs < 0 then Inl ValueError
      else if sleep_max py < secs then Inl OverflowError
      else Inr [Sleep secs])"

text \<open>\<open>int(response.headers.get('Retry-After', 60))\<close>\<close>

definition retry_after_seconds :: "platform \<Rightarrow> response \<Rightarrow> py_error + int" where
  "retry_after_seconds py response =
     (case headers response ''Retry-After'' of
        None \<Rightarrow> Inr 60
      | Some s \<Rightarrow> py_int py s)"

definition and_then :: "event list \<Rightarrow> 'a \<times> event list \<Rightarrow> 'a \<times> event list" where
  "and_then evs r = (fst r, evs @ snd r)"

text \<open>
  The loop \<open>for attempt in range(max_retries)\<close> of \<open>fetch_page\<close>, over the attempts that
  are left. \<open>server k\<close> is what the request of attempt \<open>k\<close> meets: each pass of the loop
  sends one request. The result is the returned value (\<open>None\<close> or the response) or the
  exception that leaves \<open>fetch_page\<close>, with the requests and sleeps made. The lengths
  \<open>2 ** attempt\<close> of the back-off are never negative and, for the numbers of attempts
  \<open>fetch_page\<close> is called with (three unless the caller says otherwise), a few seconds:
  \<open>time.sleep\<close> accepts them.
\<close>

fun fetch_loop ::
    "platform \<Rightarrow> (nat \<Rightarrow> outcome) \<Rightarrow> nat list
      \<Rightarrow> (py_error + response option) \<times> event list" where
  "fetch_loop py server [] = (Inr None, [])"
| "fetch_loop py server (attempt # rest) =
     (case server attempt of
        Responded response \<Rightarrow>
          if status_code response = 429 then
            (case retry_after_seconds py response of
               Inl e \<Rightarrow> (Inl e, [Get attempt])
             | Inr retry_after \<Rightarrow>
                 (case py_sleep py retry_after of
                    Inl e \<Rightarrow> (Inl e, [Get attempt])
                  | Inr slept \<Rightarrow> and_then (Get attempt # slept) (fetch_loop py server rest)))
          else if 500 \<le> status_code response \<and> status_code response < 600 then
            and_then [Get attempt, Sleep (2 ^ attempt)] (fetch_loop py server rest)
          else if 400 \<le> status_code response \<and> status_code response < 500 then
            (Inr None, [Get attempt])
          else (Inr (Some response), [Get attempt])
      | Timeout \<Rightarrow> and_then [Get attempt, Sleep (2 ^ attempt)] (fetch_loop py server rest)
      | ConnectionError \<Rightarrow> and_then [Get attempt, Sleep (2 ^ attempt)] (fetch_loop py server rest)
      | RequestException \<Rightarrow> (Inr None, [Get attempt]))"

text \<open>
  \<open>fetch_page\<close> with its parameter \<open>max_retries\<close>, whose default is 3. The pacing sleep
  of \<open>_rate_limit\<close> before the loop depends on the clock alone and is not in the trace.
\<close>

definition fetch_page ::
    "platform \<Rightarrow> (nat \<Rightarrow> outcome) \<Rightarrow> int
      \<Rightarrow> (py_error + response option) \<times> event list" where
  "fetch_page py server max_retries = fetch_loop py server [0..<nat max_retries]"

definition default_max_retries :: int where
  "default_max_retries = 3"

fun is_get :: "event \<Rightarrow> bool" where
  "is_get (Get k) = True"
| "is_get (Sleep n) = False"

text \<open>A response or exception after which the loop backs off and tries again.\<close>

fun transient :: "outcome \<Rightarrow> bool" where
  "transient (Responded r) = (500 \<le> status_code r \<and> status_code r < 600)"
| "transient Timeout = True"
| "transient ConnectionError = True"
| "transient RequestException = False"

section \<open>Operations of Python on decoded JSON\<close>

text \<open>Truth of a value in a condition: \<open>None\<close>, \<open>False\<close>, 0 and the empty ones are false.\<close>

fun truthy :: "pyval \<Rightarrow> bool" where
  "truthy PNone = False"
| "truthy (PBool b) = b"
| "truthy (PInt n) = (n \<noteq> 0)"
| "truthy (PStr s) = (s \<noteq> [])"
| "truthy (PList xs) = (xs \<noteq> [])"
| "truthy (PDict kvs) = (kvs \<noteq> [])"

fun is_substring :: "string \<Rightarrow> string \<Rightarrow> bool" where
  "is_substring k [] = (k = [])"
| "is_substring k (c # cs) = (take (length k) (c # cs) = k \<or> is_substring k cs)"

text \<open>\<open>key in data\<close>: a key of a dictionary, an element of a list, a part of a string.\<close>

fun py_contains :: "string \<Rightarrow> pyval \<Rightarrow> py_error + bool" where
  "py_contains key (PDict kvs) = Inr (key \<in> set (map fst kvs))"
| "py_contains key (PList xs) = Inr (PStr key \<in> set xs)"
| "py_contains key (PStr s) = Inr (is_substring key s)"
| "py_contains key v = Inl TypeError"

text \<open>\<open>data[key]\<close> for a string \<open>key\<close>.\<close>

fun py_getitem :: "string \<Rightarrow> pyval \<Rightarrow> py_error + pyval" where
  "py_getitem key (PDict kvs) = (case map_of kvs key of None \<Rightarrow> Inl KeyError | Some v \<Rightarrow> Inr v)"
| "py_getitem key v = Inl TypeError"

text \<open>
  The elements \<open>list.extend(documents)\<close> appends: those of a list, the keys of a
  dictionary, the characters of a string; other values are not iterable.
\<close>

fun py_iter :: "pyval \<Rightarrow> py_error + pyval list" where
  "py_iter (PList xs) = Inr xs"
| "py_iter (PDict kvs) = Inr (map (\<lambda>kv. PStr (fst kv)) kvs)"
| "py_iter (PStr s) = Inr (map (\<lambda>c. PStr [c]) s)"
| "py_iter v = Inl TypeError"

text \<open>\<open>data.get(key, default)\<close>: only a dictionary has the method.\<close>

fun py_get :: "string \<Rightarrow> pyval \<Rightarrow> pyval \<Rightarrow> py_error + pyval" where
  "py_get key dflt (PDict kvs) =
     Inr (case map_of kvs key of None \<Rightarrow> dflt | Some v \<Rightarrow> v)"
| "py_get key dflt v = Inl AttributeError"

text \<open>\<open>current_page >= total_pages\<close> for an integer \<open>current_page\<close>.\<close>

fun py_ge :: "int \<Rightarrow> pyval \<Rightarrow> py_error + bool" where
  "py_ge n (PInt m) = Inr (n \<ge> m)"
| "py_ge n (PBool b) = Inr (n \<ge> (if b then 1 else 0))"
| "py_ge n v = Inl TypeError"

text \<open>\<open>bool(response)\<close> is \<open>response.ok\<close>: the status is no error status.\<close>

definition response_ok :: "response \<Rightarrow> bool" where
  "response_ok r = (\<not> (400 \<le> status_code r \<and> status_code r < 600))"

section \<open>Pagination (scrapers/regulations\_gov.py)\<close>

text \<open>
  One pass of the loop \<open>while True\<close> of \<open>get_new_comment_periods\<close>, on what
  \<open>fetch_page\<close> gave for the current page: the loop ends (\<open>break\<close>, with the list to
  return, or an exception that leaves the function) or goes on with a longer list.
\<close>

datatype step = Done "py_error + pyval list" | Next "pyval list"

definition page_step :: "(py_error + response option) \<Rightarrow> int \<Rightarrow> pyval list \<Rightarrow> step" where
  "page_step fetched current_page all_documents =
     (case fetched of
        Inl e \<Rightarrow> Done (Inl e)
      | Inr None \<Rightarrow> Done (Inr all_documents)
      | Inr (Some response) \<Rightarrow>
          if \<not> response_ok response then Done (Inr all_documents)
          else
            (case json response of
               None \<Rightarrow> Done (Inr all_documents)
             | Some data \<Rightarrow>
                 (case py_contains ''data'' data of
                    Inl e \<Rightarrow> Done (Inl e)
                  | Inr False \<Rightarrow> Done (Inr all_documents)
                  | Inr True \<Rightarrow>
                      (case py_getitem ''data'' data of
                         Inl e \<Rightarrow> Done (Inl e)
                       | Inr documents \<Rightarrow>
                           (case py_iter documents of
                              Inl e \<Rightarrow> Done (Inl e)
                            | Inr new \<Rightarrow>
                                (case py_get ''meta'' (PDict []) data of
                                   Inl e \<Rightarrow> Done (Inl e)
                                 | Inr meta \<Rightarrow>
                                     (case py_get ''totalPages'' (PInt 1) meta of
                                        Inl e \<Rightarrow> Done (Inl e)
                                      | Inr total_pages \<Rightarrow>
                                          (case py_ge current_page total_pages of
                                             Inl e \<Rightarrow> Done (Inl e)
                                           | Inr True \<Rightarrow> Done (Inr (all_documents @ new))
                                           | Inr False \<Rightarrow> Next (all_documents @ new)))))))))"

text \<open>
  The loop. \<open>fetch n\<close> is what \<open>fetch_page\<close> gives for page \<open>n\<close> of the search. A server
  that always announces one more page keeps the loop running: the result is \<open>None\<close> then.
\<close>

partial_function (option) fetch_pages ::
    "(int \<Rightarrow> py_error + response option) \<Rightarrow> int \<Rightarrow> pyval list \<Rightarrow> (py_error + pyval list) option"
where
  "fetch_pages fetch page all_documents =
     (case page_step (fetch page) page all_documents of
        Done r \<Rightarrow> Some r
      | Next docs \<Rightarrow> fetch_pages fetch (page + 1) docs)"

definition get_new_comment_periods ::
    "(int \<Rightarrow> py_error + response option) \<Rightarrow> (py_error + pyval list) option" where
  "get_new_comment_periods fetch = fetch_pages fetch 1 []"

text \<open>
  Page \<open>n\<close> is fetched and decoded, holds the documents \<open>docs\<close>, and announces more
  pages than \<open>n\<close>.
\<close>

definition page_with_more :: "(py_error + response option) \<Rightarrow> int \<Rightarrow> pyval list \<Rightarrow> bool" where
  "page_with_more fetched n docs =
     (\<exists>r kvs m t. fetched = Inr (Some r) \<and> response_ok r \<and> json r = Some (PDict kvs)
        \<and> map_of kvs ''data'' = Some (PList docs)
        \<and> map_of kvs ''meta'' = Some (PDict m)
        \<and> map_of m ''totalPages'' = Some (PInt t) \<and> n < t)"

text \<open>
  The fetch of a page fails (\<open>fetch_page\<close> gives \<open>None\<close>), or its body is not JSON, or the
  decoded object has no key \<open>data\<close>.
\<close>

definition page_fails :: "(py_error + response option) \<Rightarrow> bool" where
  "page_fails fetched =
     (fetched = Inr None
      \<or> (\<exists>r. fetched = Inr (Some r) \<and> response_ok r \<and> json r = None)
      \<or> (\<exists>r kvs. fetched = Inr (Some r) \<and> response_ok r \<and> json r = Some (PDict kvs)
            \<and> map_of kvs ''data'' = None))"

section \<open>Enrichment (scrapers/federal\_register.py)\<close>

text \<open>A period dictionary, and \<open>period.get(key)\<close>.\<close>

type_synonym period = "string \<rightharpoonup> pyval"

definition pget :: "period \<Rightarrow> string \<Rightarrow> pyval" where
  "pget period key = (case period key of None \<Rightarrow> PNone | Some v \<Rightarrow> v)"

definition dict_get :: "(string \<times> pyval) list \<Rightarrow> string \<Rightarrow> pyval" where
  "dict_get kvs key = (case map_of kvs key of None \<Rightarrow> PNone | Some v \<Rightarrow> v)"

text \<open>
  \<open>get_document\<close>: \<open>fetch n\<close> is what \<open>fetch_page\<close> gives for the URL of document number
  \<open>n\<close>.
\<close>

definition get_document ::
    "(string \<Rightarrow> py_error + response option) \<Rightarrow> string \<Rightarrow> py_error + pyval" where
  "get_document fetch fr_doc_num =
     (case fetch fr_doc_num of
        Inl e \<Rightarrow> Inl e
      | Inr None \<Rightarrow> Inr PNone
      | Inr (Some response) \<Rightarrow>
          if \<not> response_ok response then Inr PNone
          else (case json response of None \<Rightarrow> Inr PNone | Some v \<Rightarrow> Inr v))"

text \<open>The document number: the last part of the cross-reference URL of the period.\<close>

definition fr_doc_num :: "period \<Rightarrow> py_error + string option" where
  "fr_doc_num period =
     (if truthy (pget period ''federal_register_url'') then
        (case pget period ''federal_register_url'' of
           PStr url \<Rightarrow>
             (let parts = split_on ''/'' (rstrip_slash url)
              in if length parts > 0 then Inr (Some (last parts)) else Inr None)
         | _ \<Rightarrow> Inl AttributeError)
      else Inr None)"

text \<open>
  \<open>period.get('keywords', '').split(', ') if period.get('keywords') else []\<close>: a value
  that is true and no string has no method \<open>split\<close>.
\<close>

definition existing_topics :: "period \<Rightarrow> py_error + string list" where
  "existing_topics period =
     (if truthy (pget period ''keywords'') then
        (case pget period ''keywords'' of
           PStr s \<Rightarrow> Inr (split_on '', '' s)
         | _ \<Rightarrow> Inl AttributeError)
      else Inr [])"

fun is_str :: "pyval \<Rightarrow> bool" where
  "is_str (PStr s) = True"
| "is_str v = False"

fun str_of :: "pyval \<Rightarrow> string" where
  "str_of (PStr s) = s"
| "str_of v = []"

text \<open>
  The new value of \<open>keywords\<close>, if any:
  \<open>', '.join(sorted(set(existing_topics + fr_topics)))\<close>. The concatenation needs a list,
  and an element that is no string makes \<open>set\<close>, \<open>sorted\<close> or \<open>join\<close> raise \<open>TypeError\<close>.
\<close>

definition merged_keywords :: "period \<Rightarrow> (string \<times> pyval) list \<Rightarrow> py_error + string option" where
  "merged_keywords period fr_doc =
     (if truthy (dict_get fr_doc ''topics'') then
        (case existing_topics period of
           Inl e \<Rightarrow> Inl e
         | Inr existing \<Rightarrow>
             (case dict_get fr_doc ''topics'' of
                PList fr_topics \<Rightarrow>
                  if list_all is_str fr_topics
                  then Inr (Some (join '', '' (sort (remdups (existing @ map str_of fr_topics)))))
                  else Inl TypeError
              | _ \<Rightarrow> Inl TypeError))
      else Inr None)"

text \<open>
  The part of \<open>enrich_period\<close> after the document is fetched: \<open>enhanced = period.copy()\<close>
  and the three updates. A document that is no dictionary has no method \<open>get\<close>.
\<close>

definition enhance :: "period \<Rightarrow> pyval \<Rightarrow> py_error + period" where
  "enhance period fr_doc =
     (case fr_doc of
        PDict kvs \<Rightarrow>
          (let enhanced1 =
                 (if truthy (dict_get kvs ''abstract'') \<and> \<not> truthy (pget period ''abstract'')
                  then period(''abstract'' \<mapsto> dict_get kvs ''abstract'') else period)
           in case merged_keywords period kvs of
                Inl e \<Rightarrow> Inl e
              | Inr keywords \<Rightarrow>
                  (let enhanced2 =
                         (case keywords of
                            None \<Rightarrow> enhanced1
                          | Some k \<Rightarrow> enhanced1(''keywords'' \<mapsto> PStr k));
                       enhanced3 =
                         (if truthy (dict_get kvs ''action'')
                             \<and> \<not> truthy (pget period ''document_type'')
                          then enhanced2(''document_type'' \<mapsto> dict_get kvs ''action'')
                          else enhanced2)
                   in Inr enhanced3))
      | _ \<Rightarrow> Inl AttributeError)"

definition enrich_period ::
    "(string \<Rightarrow> py_error + response option) \<Rightarrow> period \<Rightarrow> py_error + period" where
  "enrich_period fetch period =
     (case fr_doc_num period of
        Inl e \<Rightarrow> Inl e
      | Inr None \<Rightarrow> Inr period
      | Inr (Some n) \<Rightarrow>
          if n = [] then Inr period
          else
            (case get_document fetch n of
               Inl e \<Rightarrow> Inl e
             | Inr fr_doc \<Rightarrow> if \<not> truthy fr_doc then Inr period else enhance period fr_doc))"

section \<open>Example inputs\<close>

text \<open>Drafts, stores, server behaviours and documents on which the theorems below are run.\<close>

definition empty_db :: database where
  "empty_db = \<lparr>periods = [], bot_posts = [], seq = 0\<rparr>"

definition ex_draft1 :: draft where
  "ex_draft1 =
     \<lparr>document_id = Some ''EPA-HQ-OW-2024-0123'', docket_id = Some ''EPA-HQ-OW-2024-0123'',
      title = Some ''Clean Water Standards'', agency_id = Some ''EPA'',
      agency_name = Some ''Environmental Protection Agency'', posted_date = Some 99,
      comment_end_date = Some 130,
      regulations_url = Some ''https://www.regulations.gov/commenton/EPA-HQ-OW-2024-0123'',
      kwargs = [''abstract'' \<mapsto> Text ''Proposed standards'', ''topics'' \<mapsto> Text ''environment'',
                ''document_type'' \<mapsto> Text ''Proposed Rule'']\<rparr>"

definition ex_draft2 :: draft where
  "ex_draft2 =
     \<lparr>document_id = Some ''EPA-HQ-OW-2024-0123'', docket_id = Some ''EPA-HQ-OW-2024-0123'',
      title = Some ''Clean Water Standards (Updated)'', agency_id = Some ''EPA'',
      agency_name = Some ''Environmental Protection Agency'', posted_date = Some 99,
      comment_end_date = Some 130,
      regulations_url = Some ''https://www.regulations.gov/commenton/EPA-HQ-OW-2024-0123'',
      kwargs = [''abstract'' \<mapsto> Text ''Proposed standards - UPDATED'', ''topics'' \<mapsto> Null,
                ''posted_new'' \<mapsto> Num 1]\<rparr>"

text \<open>The second draft once more, from a document whose \<open>docketId\<close> the API gives as \<open>null\<close>.\<close>

definition ex_draft3 :: draft where
  "ex_draft3 = ex_draft2\<lparr>docket_id := None\<rparr>"

definition ex_row :: "int \<Rightarrow> string \<Rightarrow> int \<Rightarrow> row" where
  "ex_row i doc end_date =
     (default_row i ''2026-01-01 00:00:00'')
       (''document_id'' := Text doc, ''docket_id'' := Text doc, ''agency_id'' := Text ''FDA'',
        ''agency_name'' := Text ''Food and Drug Administration'',
        ''title'' := Text ''Food Labeling Requirements'', ''posted_date'' := Day 80,
        ''comment_end_date'' := Day end_date,
        ''regulations_url'' := Text ''https://www.regulations.gov/commenton/'',
        ''topics'' := Text ''food'')"

definition ex_db :: database where
  "ex_db = \<lparr>periods = [ex_row 1 ''EPA-HQ-OW-2024-0123'' 107, ex_row 2 ''FDA-2024-N-5678'' 108],
            bot_posts = [], seq = 2\<rparr>"

definition ex_platform :: platform where
  "ex_platform = \<lparr>int_max_str_digits = 4300, sleep_max = 8589934592\<rparr>"

definition r429 :: response where "r429 = \<lparr>status_code = 429, headers = Map.empty, json = None\<rparr>"

definition r200 :: response where "r200 = \<lparr>status_code = 200, headers = Map.empty, json = Some (PDict [])\<rparr>"

definition r429_date :: response where
  "r429_date = \<lparr>status_code = 429, headers = [''Retry-After'' \<mapsto> ''Wed, 21 Oct 2015 07:28:00 GMT''], json = None\<rparr>"

definition r503 :: response where "r503 = \<lparr>status_code = 503, headers = Map.empty, json = None\<rparr>"

definition r404 :: response where "r404 = \<lparr>status_code = 404, headers = Map.empty, json = None\<rparr>"

definition r429_120 :: response where
  "r429_120 = \<lparr>status_code = 429, headers = [''Retry-After'' \<mapsto> ''120''], json = None\<rparr>"

definition rate_limited_thrice :: "nat \<Rightarrow> outcome" where
  "rate_limited_thrice k = (if k < 3 then Responded r429 else Responded r200)"

definition always_failing :: "nat \<Rightarrow> outcome" where
  "always_failing k = (if k = 0 then Responded r503 else if k = 1 then Timeout else ConnectionError)"

definition ex_docs :: "pyval list" where
  "ex_docs = [PDict [(''id'', PStr ''EPA-HQ-OW-2024-0123'')], PDict [(''id'', PStr ''FDA-2024-N-5678'')]]"

definition ex_page1 :: response where
  "ex_page1 =
     \<lparr>status_code = 200, headers = Map.empty,
      json = Some (PDict [(''data'', PList ex_docs), (''meta'', PDict [(''totalPages'', PInt 3)])])\<rparr>"

definition ex_search :: "int \<Rightarrow> py_error + response option" where
  "ex_search page = (if page = 1 then Inr (Some ex_page1) else Inr None)"

text \<open>
  Two searches whose first page is as above: the second page is a response 200 with the
  JSON body \<open>null\<close>, and the second page is what \<open>fetch_page\<close> does on a response 429
  whose header \<open>Retry-After\<close> holds a date.
\<close>

definition ex_search_null :: "int \<Rightarrow> py_error + response option" where
  "ex_search_null page =
     (if page = 1 then Inr (Some ex_page1)
      else Inr (Some \<lparr>status_code = 200, headers = Map.empty, json = Some PNone\<rparr>))"

definition ex_search_date :: "int \<Rightarrow> py_error + response option" where
  "ex_search_date page =
     (if page = 1 then Inr (Some ex_page1)
      else fst (fetch_page ex_platform (\<lambda>k. Responded r429_date) default_max_retries))"

definition ex_period :: period where
  "ex_period =
     [''document_id'' \<mapsto> PStr ''EPA-HQ-OW-2024-0123'',
      ''title'' \<mapsto> PStr ''Clean Water Standards'',
      ''abstract'' \<mapsto> PStr [],
      ''federal_register_url'' \<mapsto> PStr ''https://www.federalregister.gov/documents/2026-00783'']"

definition ex_fr_doc :: pyval where
  "ex_fr_doc = PDict [(''abstract'', PStr ''X''), (''action'', PStr ''Proposed rule.'')]"

definition ex_fr_fetch :: "string \<Rightarrow> py_error + response option" where
  "ex_fr_fetch n =
     (if n = ''2026-00783''
      then Inr (Some \<lparr>status_code = 200, headers = Map.empty, json = Some ex_fr_doc\<rparr>)
      else Inr None)"

section \<open>Properties of the store\<close>

subsection \<open>The columns an upsert writes\<close>

lemma provided_items_keys: "fst ` set (provided_items kw) \<subseteq> set optional_fields"
  by (auto simp: provided_items_def map_filter_def)

lemma fields_subset: "set (fields_of d) \<subseteq> set base_fields \<union> set optional_fields"
  using provided_items_keys [of "kwargs d"] by (auto simp: fields_of_def)

lemma assign_other: "c \<notin> fst ` set fvs \<Longrightarrow> assign r fvs c = r c"
  by (simp add: assign_def map_of_eq_None_iff [THEN iffD2])

lemma assign_value: "map_of fvs f = Some v \<Longrightarrow> assign r fvs f = v"
  by (simp add: assign_def)

lemma excluded_keys: "fst ` set (zip (fields_of d) (values_of d)) \<subseteq> set base_fields \<union> set optional_fields"
  using fields_subset [of d] by (auto dest: set_zip_leftD)

lemma flag_not_field:
  "f \<in> set flag_fields \<or> f = ''id'' \<Longrightarrow> f \<notin> set base_fields \<union> set optional_fields"
  by (auto simp: flag_fields_def base_fields_def optional_fields_def)

lemma map_filter_keys:
  "map fst (List.map_filter (\<lambda>k. map_option (Pair k) (g k)) xs) = filter (\<lambda>k. g k \<noteq> None) xs"
  by (induction xs) (auto simp: map_filter_def)

lemma provided_keys: "map fst (provided_items kw) = filter (\<lambda>k. provided_optional kw k \<noteq> None) optional_fields"
  by (simp add: provided_items_def map_filter_keys)

lemma map_filter_items:
  "(k, v) \<in> set (List.map_filter (\<lambda>k. map_option (Pair k) (g k)) xs) \<longleftrightarrow> k \<in> set xs \<and> g k = Some v"
  by (induction xs) (auto simp: map_filter_def)

lemma provided_items_value: "(k, v) \<in> set (provided_items kw) \<longleftrightarrow> k \<in> set optional_fields \<and> provided_optional kw k = Some v"
  by (simp add: provided_items_def map_filter_items)

lemma distinct_fields: "distinct (fields_of d)"
proof -
  have "distinct optional_fields" by (simp add: optional_fields_def)
  then have "distinct (map fst (provided_items (kwargs d)))" by (simp add: provided_keys)
  moreover have "distinct base_fields" by (simp add: base_fields_def)
  moreover have "set base_fields \<inter> set optional_fields = {}"
    by (simp add: base_fields_def optional_fields_def)
  ultimately show ?thesis using provided_items_keys [of "kwargs d"]
    by (auto simp: fields_of_def)
qed

lemma length_fields: "length (fields_of d) = length (values_of d)"
  by (simp add: fields_of_def values_of_def base_fields_def)

lemma excluded_lookup:
  assumes "(f, v) \<in> set (zip (fields_of d) (values_of d))"
  shows "map_of (zip (fields_of d) (values_of d)) f = Some v"
  using assms distinct_fields [of d] length_fields [of d]
  by (intro map_of_is_SomeI) simp_all

lemma null_value_absent:
  assumes "k \<in> set optional_fields" "kwargs d k = Some Null \<or> kwargs d k = None"
  shows "k \<notin> set (fields_of d)"
proof -
  have "provided_optional (kwargs d) k = None"
    using assms by (auto simp: provided_optional_def)
  then have "k \<notin> set (map fst (provided_items (kwargs d)))" by (simp add: provided_keys)
  moreover have "k \<notin> set base_fields" using assms(1) by (auto simp: base_fields_def optional_fields_def)
  ultimately show ?thesis by (simp add: fields_of_def)
qed

lemma base_values:
  "map_of (zip (fields_of d) (values_of d)) ''document_id'' = Some (sql_text (document_id d))"
  "map_of (zip (fields_of d) (values_of d)) ''docket_id'' = Some (sql_text (docket_id d))"
  "map_of (zip (fields_of d) (values_of d)) ''title'' = Some (sql_text (title d))"
  "map_of (zip (fields_of d) (values_of d)) ''agency_id'' = Some (sql_text (agency_id d))"
  "map_of (zip (fields_of d) (values_of d)) ''agency_name'' = Some (sql_text (agency_name d))"
  "map_of (zip (fields_of d) (values_of d)) ''posted_date'' = Some (sql_day (posted_date d))"
  "map_of (zip (fields_of d) (values_of d)) ''comment_end_date''
     = Some (sql_day (comment_end_date d))"
  "map_of (zip (fields_of d) (values_of d)) ''regulations_url''
     = Some (sql_text (regulations_url d))"
  by (simp_all add: fields_of_def values_of_def base_fields_def)

lemma base_members:
  "(''document_id'', sql_text (document_id d)) \<in> set (zip (fields_of d) (values_of d))"
  "(''docket_id'', sql_text (docket_id d)) \<in> set (zip (fields_of d) (values_of d))"
  "(''title'', sql_text (title d)) \<in> set (zip (fields_of d) (values_of d))"
  "(''agency_id'', sql_text (agency_id d)) \<in> set (zip (fields_of d) (values_of d))"
  "(''agency_name'', sql_text (agency_name d)) \<in> set (zip (fields_of d) (values_of d))"
  "(''posted_date'', sql_day (posted_date d)) \<in> set (zip (fields_of d) (values_of d))"
  "(''comment_end_date'', sql_day (comment_end_date d)) \<in> set (zip (fields_of d) (values_of d))"
  "(''regulations_url'', sql_text (regulations_url d)) \<in> set (zip (fields_of d) (values_of d))"
  by (rule map_of_SomeD, rule base_values)+

lemma map_of_filter_key:
  "f \<noteq> k \<Longrightarrow> map_of (filter (\<lambda>(f, v). f \<noteq> k) fvs) f = map_of fvs f"
  by (induction fvs) auto

subsection \<open>What an update keeps and what it sets\<close>

lemma do_update_keeps:
  assumes "f \<in> set flag_fields \<or> f = ''id''"
  shows "do_update now d r f = r f"
proof -
  have 1: "f \<notin> fst ` set (filter (\<lambda>(f, v). f \<noteq> ''document_id'') (zip (fields_of d) (values_of d)))"
    using flag_not_field [OF assms] excluded_keys [of d] by auto
  have 2: "f \<noteq> ''updated_at''" using assms by (auto simp: flag_fields_def)
  show ?thesis unfolding do_update_def using 2 assign_other [OF 1] by simp
qed

lemma do_update_other:
  assumes "f \<notin> set (fields_of d)" "f \<noteq> ''updated_at''"
  shows "do_update now d r f = r f"
proof -
  have "f \<notin> fst ` set (filter (\<lambda>(f, v). f \<noteq> ''document_id'') (zip (fields_of d) (values_of d)))"
    using assms(1) by (auto dest: set_zip_leftD)
  then show ?thesis using assms(2) by (simp add: do_update_def assign_other)
qed

lemma do_update_value:
  assumes "(f, v) \<in> set (zip (fields_of d) (values_of d))" "f \<noteq> ''document_id''"
  shows "do_update now d r f = v"
proof -
  have "f \<in> set base_fields \<union> set optional_fields"
    using assms(1) excluded_keys [of d] by force
  then have "f \<noteq> ''updated_at''" by (auto simp: base_fields_def optional_fields_def)
  then show ?thesis
    using excluded_lookup [OF assms(1)] assms(2)
    by (simp add: do_update_def assign_value map_of_filter_key)
qed

lemma do_update_document: "do_update now d r ''document_id'' = r ''document_id''"
proof -
  have "''document_id'' \<notin> fst ` set (filter (\<lambda>(f, v). f \<noteq> ''document_id'') (zip (fields_of d) (values_of d)))"
    by auto
  then show ?thesis by (simp add: do_update_def assign_other)
qed

lemma has_document_update: "has_document doc (do_update now d r) = has_document doc r"
  by (simp add: has_document_def do_update_document split: option.splits)

lemma row_id_update: "row_id (do_update now d r) = row_id r"
  by (simp add: row_id_def do_update_keeps)

lemma constraints_insert:
  "(not_null_ok (assign r0 (zip (fields_of d) (values_of d)))
      \<and> check_dates (assign r0 (zip (fields_of d) (values_of d)))) = accepted d"
  by (auto simp: not_null_ok_def not_null_columns_def check_dates_def assign_value base_values
      accepted_def sql_text_def sql_day_def split: option.splits)

lemma constraints_update:
  assumes "has_document (document_id d) r"
  shows "(not_null_ok (do_update now d r) \<and> check_dates (do_update now d r)) = accepted d"
proof -
  obtain s where s: "document_id d = Some s" "r ''document_id'' = Text s"
    using assms by (auto simp: has_document_def split: option.splits)
  have v: "do_update now d r ''title'' = sql_text (title d)"
    "do_update now d r ''agency_id'' = sql_text (agency_id d)"
    "do_update now d r ''agency_name'' = sql_text (agency_name d)"
    "do_update now d r ''posted_date'' = sql_day (posted_date d)"
    "do_update now d r ''comment_end_date'' = sql_day (comment_end_date d)"
    "do_update now d r ''regulations_url'' = sql_text (regulations_url d)"
    by (rule do_update_value, rule base_members, simp)+
  show ?thesis
    using s by (auto simp: not_null_ok_def not_null_columns_def check_dates_def v
        do_update_document accepted_def sql_text_def sql_day_def split: option.splits)
qed

lemma new_row_flag:
  assumes "f \<in> set flag_fields"
  shows "assign (default_row i now) (zip (fields_of d) (values_of d)) f = Num 0"
proof -
  have 1: "f \<notin> fst ` set (zip (fields_of d) (values_of d))"
    using flag_not_field [of f] assms excluded_keys [of d] by auto
  show ?thesis using assign_other [OF 1] assms by (auto simp: default_row_def flag_fields_def)
qed

lemma foldr_max_bound: "r \<in> set rs \<Longrightarrow> row_id r \<le> foldr max (map row_id rs) 0"
  by (induction rs) auto

lemma foldr_max_nonneg: "0 \<le> foldr max (map row_id rs) (0::int)"
  by (induction rs) auto

lemma next_id_bound: "r \<in> set (periods db) \<Longrightarrow> row_id r < next_id db"
  using foldr_max_bound [of r "periods db"] by (simp add: next_id_def)

lemma next_id_pos: "0 < next_id db"
  using foldr_max_nonneg [of "periods db"] by (simp add: next_id_def)

lemma row_id_insert: "row_id (assign (default_row i now) (zip (fields_of d) (values_of d))) = i"
proof -
  have "''id'' \<notin> fst ` set (zip (fields_of d) (values_of d))"
    using flag_not_field [of "''id''"] excluded_keys [of d] by auto
  then show ?thesis by (simp add: row_id_def assign_other default_row_def)
qed

subsection \<open>Searching the table\<close>

lemma find_append_last: "find P xs = None \<Longrightarrow> P x \<Longrightarrow> find P (xs @ [x]) = Some x"
  by (induction xs) (auto split: if_splits)

lemma find_map_update:
  assumes "\<And>x. P (g x) = P x"
  shows "find P (map (\<lambda>x. if P x then g x else x) xs) = map_option g (find P xs)"
  using assms by (induction xs) auto

lemma find_unique:
  "distinct (map k xs) \<Longrightarrow> find (\<lambda>x. k x = c) xs = Some r \<Longrightarrow> filter (\<lambda>x. k x = c) xs = [r]"
proof (induction xs)
  case Nil
  then show ?case by simp
next
  case (Cons x xs)
  show ?case
  proof (cases "k x = c")
    case True
    then have "r = x" using Cons.prems(2) by simp
    moreover have "k x \<notin> k ` set xs"
      using Cons.prems(1) by simp
    then have "\<forall>y \<in> set xs. k y \<noteq> c"
      using True by blast
    then have "filter (\<lambda>y. k y = c) xs = []"
      by (simp add: filter_empty_conv)
    ultimately show ?thesis using True by simp
  next
    case False
    then show ?thesis using Cons by simp
  qed
qed

lemma list_ex_map: "list_ex P (map g xs) = list_ex (\<lambda>x. P (g x)) xs"
  by (induction xs) auto

lemma list_ex_eqI: "(\<And>x. x \<in> set xs \<Longrightarrow> P x = Q x) \<Longrightarrow> list_ex P xs = list_ex Q xs"
  by (induction xs) auto

subsection \<open>The two branches of an upsert\<close>

lemma find_updated:
  assumes "find (has_document doc) rs = Some old"
  shows "find (has_document doc)
           (map (\<lambda>r. if has_document doc r then do_update now d r else r) rs)
         = Some (do_update now d old)"
  using assms by (simp add: find_map_update has_document_update)

lemma upsert_rejects:
  assumes "\<not> accepted d"
  shows "upsert_comment_period now d db = Inl IntegrityError"
  using assms constraints_insert [of "default_row (next_id db) now" d]
  by (auto simp: upsert_comment_period_def Let_def)

lemma upsert_insert:
  assumes "find (has_document (document_id d)) (periods db) = None"
  shows "upsert_comment_period now d db =
           (if accepted d
            then Inr (next_id db,
                   db\<lparr>periods := periods db
                          @ [assign (default_row (next_id db) now) (zip (fields_of d) (values_of d))],
                      seq := next_id db\<rparr>)
            else Inl IntegrityError)"
proof (cases "accepted d")
  case True
  then have "not_null_ok (assign (default_row (next_id db) now) (zip (fields_of d) (values_of d)))"
    "check_dates (assign (default_row (next_id db) now) (zip (fields_of d) (values_of d)))"
    using constraints_insert [of "default_row (next_id db) now" d] by simp_all
  then show ?thesis using True assms
    by (simp add: upsert_comment_period_def Let_def row_id_insert next_id_pos)
next
  case False
  then show ?thesis by (simp add: upsert_rejects)
qed

lemma upsert_update:
  assumes "find (has_document (document_id d)) (periods db) = Some old"
  shows "upsert_comment_period now d db =
           (if accepted d
            then Inr (row_id old,
                   db\<lparr>periods := map (\<lambda>r. if has_document (document_id d) r
                                            then do_update now d r else r) (periods db),
                      seq := next_id db\<rparr>)
            else Inl IntegrityError)"
proof (cases "accepted d")
  case True
  have h: "has_document (document_id d) old"
    using assms by (auto simp: find_Some_iff)
  have c: "not_null_ok (assign (default_row (next_id db) now) (zip (fields_of d) (values_of d)))"
    "check_dates (assign (default_row (next_id db) now) (zip (fields_of d) (values_of d)))"
    "not_null_ok (do_update now d old)" "check_dates (do_update now d old)"
    using True constraints_insert [of "default_row (next_id db) now" d]
      constraints_update [OF h, of now] by simp_all
  show ?thesis using True assms c
    by (simp add: upsert_comment_period_def Let_def find_updated row_id_update)
next
  case False
  then show ?thesis by (simp add: upsert_rejects)
qed

lemma upsert_succeeds:
  assumes "accepted d"
  shows "\<exists>i db'. upsert_comment_period now d db = Inr (i, db')"
proof (cases "find (has_document (document_id d)) (periods db)")
  case None
  then show ?thesis using assms by (simp add: upsert_insert)
next
  case (Some old)
  then show ?thesis using assms by (simp add: upsert_update)
qed

lemma upsert_accepted:
  assumes "upsert_comment_period now d db = Inr (i, db')"
  shows "accepted d"
  using assms upsert_rejects [of d now db] by auto

lemma upsert_row:
  assumes "upsert_comment_period now d db = Inr (i, db')"
  shows "\<exists>r. find (has_document (document_id d)) (periods db') = Some r \<and> row_id r = i
           \<and> (\<forall>f v. (f, v) \<in> set (zip (fields_of d) (values_of d)) \<longrightarrow> r f = v)
           \<and> (\<forall>old f. find (has_document (document_id d)) (periods db) = Some old
                  \<longrightarrow> f \<notin> set (fields_of d) \<longrightarrow> f \<noteq> ''updated_at'' \<longrightarrow> r f = old f)"
proof (cases "find (has_document (document_id d)) (periods db)")
  case None
  let ?new = "assign (default_row (next_id db) now) (zip (fields_of d) (values_of d))"
  have a: "accepted d" using upsert_accepted [OF assms] .
  have db': "periods db' = periods db @ [?new]" and i: "i = next_id db"
    using assms a by (auto simp: upsert_insert [OF None])
  obtain s where s: "document_id d = Some s" using a by (auto simp: accepted_def)
  have "has_document (document_id d) ?new"
    using s by (simp add: has_document_def assign_value base_values sql_text_def)
  then have "find (has_document (document_id d)) (periods db') = Some ?new"
    using None db' by (simp add: find_append_last)
  moreover have "row_id ?new = i" using i by (simp add: row_id_insert)
  moreover have "\<forall>f v. (f, v) \<in> set (zip (fields_of d) (values_of d)) \<longrightarrow> ?new f = v"
    by (auto intro: assign_value excluded_lookup)
  ultimately show ?thesis using None by simp
next
  case (Some old)
  let ?new = "do_update now d old"
  have a: "accepted d" using upsert_accepted [OF assms] .
  have db': "periods db' = map (\<lambda>r. if has_document (document_id d) r then do_update now d r else r) (periods db)"
    and i: "i = row_id old"
    using assms a by (auto simp: upsert_update [OF Some])
  have "has_document (document_id d) old"
    using Some by (auto simp: find_Some_iff)
  then have old: "old ''document_id'' = sql_text (document_id d)"
    by (auto simp: has_document_def sql_text_def split: option.splits)
  have "find (has_document (document_id d)) (periods db') = Some ?new"
    using Some db' by (simp add: find_updated)
  moreover have "row_id ?new = i" using i by (simp add: row_id_update)
  moreover have "?new f = v" if "(f, v) \<in> set (zip (fields_of d) (values_of d))" for f v
  proof (cases "f = ''document_id''")
    case True
    then have "v = sql_text (document_id d)"
      using excluded_lookup [OF that] base_values(1) [of d] by simp
    then show ?thesis using True old by (simp add: do_update_document)
  next
    case False
    then show ?thesis using that by (rule do_update_value [rotated])
  qed
  moreover have "?new f = old f" if "f \<notin> set (fields_of d)" "f \<noteq> ''updated_at''" for f
    using that by (rule do_update_other)
  ultimately show ?thesis using Some by auto
qed

lemma upsert_distinct:
  assumes "upsert_comment_period now d db = Inr (i, db')"
    and "distinct (map (\<lambda>r. r ''document_id'') (periods db))"
  shows "distinct (map (\<lambda>r. r ''document_id'') (periods db'))"
proof (cases "find (has_document (document_id d)) (periods db)")
  case None
  let ?new = "assign (default_row (next_id db) now) (zip (fields_of d) (values_of d))"
  have a: "accepted d" using upsert_accepted [OF assms(1)] .
  have db': "periods db' = periods db @ [?new]"
    using assms(1) a by (auto simp: upsert_insert [OF None])
  obtain s where s: "document_id d = Some s" using a by (auto simp: accepted_def)
  have "?new ''document_id'' = Text s"
    using s by (simp add: assign_value base_values sql_text_def)
  moreover have "\<forall>r \<in> set (periods db). r ''document_id'' \<noteq> Text s"
    using None s by (auto simp: find_None_iff has_document_def)
  ultimately show ?thesis using assms(2) db' by auto
next
  case (Some old)
  have a: "accepted d" using upsert_accepted [OF assms(1)] .
  have db': "periods db' = map (\<lambda>r. if has_document (document_id d) r then do_update now d r else r) (periods db)"
    using assms(1) a by (auto simp: upsert_update [OF Some])
  have "map (\<lambda>r. r ''document_id'') (periods db') = map (\<lambda>r. r ''document_id'') (periods db)"
    unfolding db' by (simp add: do_update_document)
  then show ?thesis using assms(2) by simp
qed

lemma upsert_flag_set:
  assumes "f \<in> set flag_fields" and "upsert_comment_period now d db = Inr (k, db')"
  shows "flag_set db' i f = flag_set db i f"
proof (cases "find (has_document (document_id d)) (periods db)")
  case None
  have "periods db' = periods db @ [assign (default_row (next_id db) now) (zip (fields_of d) (values_of d))]"
    using assms(2) upsert_accepted [OF assms(2)] by (auto simp: upsert_insert [OF None])
  then show ?thesis using new_row_flag [OF assms(1)] by (simp add: flag_set_def)
next
  case (Some old)
  have "periods db' = map (\<lambda>r. if has_document (document_id d) r then do_update now d r else r) (periods db)"
    using assms(2) upsert_accepted [OF assms(2)] by (auto simp: upsert_update [OF Some])
  then show ?thesis using do_update_keeps [of f] do_update_keeps [of "''id''"] assms(1)
    by (simp add: flag_set_def list_ex_map)
qed

lemma upsert_seq_flag_set:
  "f \<in> set flag_fields \<Longrightarrow> flag_set (upsert_seq cs db) i f = flag_set db i f"
proof (induction cs arbitrary: db)
  case Nil
  then show ?case by simp
next
  case (Cons c cs)
  obtain now d where c: "c = (now, d)" by (cases c)
  show ?case
  proof (cases "upsert_comment_period now d db")
    case (Inl e)
    then show ?thesis using Cons c by simp
  next
    case (Inr p)
    obtain k db' where p: "p = (k, db')" by (cases p)
    show ?thesis using Cons Inr c p upsert_flag_set [of f now d db k db' i] by simp
  qed
qed

lemma field_map_flag: "field_map t = Some f \<Longrightarrow> f \<in> set flag_fields"
  by (auto simp: field_map_def flag_fields_def split: if_splits)

lemma mark_posted_flag_set:
  assumes "mark_posted pid t uri db = Inr db'"
  shows "flag_set db' i f = (flag_set db i f \<or> (i = pid \<and> field_map t = Some f \<and> list_ex (\<lambda>r. r ''id'' = Num pid) (periods db)))"
proof -
  obtain fld where fld: "field_map t = Some fld"
    using assms by (auto simp: mark_posted_def split: option.splits)
  have ne: "fld \<noteq> ''id''" using field_map_flag [OF fld] by (auto simp: flag_fields_def)
  have "periods db' = map (\<lambda>r. if r ''id'' = Num pid then r(fld := Num 1) else r) (periods db)"
    using assms fld by (auto simp: mark_posted_def Let_def)
  then have "flag_set db' i f =
      list_ex (\<lambda>r. r ''id'' = Num i \<and> (r f = Num 1 \<or> (i = pid \<and> fld = f))) (periods db)"
    using ne by (simp add: flag_set_def list_ex_map) (rule list_ex_eqI, auto)
  then show ?thesis using fld
    by (auto simp: flag_set_def list_ex_iff)
qed

lemma provided_optional_drop:
  assumes "kw k = Some Null \<or> k \<notin> set optional_fields"
  shows "provided_optional (kw(k := None)) = provided_optional kw"
  using assms by (auto simp: provided_optional_def fun_eq_iff split: option.splits)

lemma fields_drop:
  assumes "kwargs d k = Some Null \<or> k \<notin> set optional_fields"
  shows "fields_of (d\<lparr>kwargs := (kwargs d)(k := None)\<rparr>) = fields_of d"
    and "values_of (d\<lparr>kwargs := (kwargs d)(k := None)\<rparr>) = values_of d"
  using provided_optional_drop [of "kwargs d" k] assms by (simp_all add: fields_of_def values_of_def provided_items_def)

lemma upsert_drop:
  assumes "kwargs d k = Some Null \<or> k \<notin> set optional_fields"
  shows "upsert_comment_period now (d\<lparr>kwargs := (kwargs d)(k := None)\<rparr>) db = upsert_comment_period now d db"
proof -
  let ?d = "d\<lparr>kwargs := (kwargs d)(k := None)\<rparr>"
  have 1: "fields_of ?d = fields_of d" "values_of ?d = values_of d" by (rule fields_drop [OF assms])+
  have 2: "document_id ?d = document_id d" by simp
  have 3: "do_update now ?d = do_update now d" by (simp add: do_update_def 1 fun_eq_iff)
  show ?thesis unfolding upsert_comment_period_def 1 2 3 ..
qed

subsection \<open>Claims about the store\<close>

text \<open>
  Claim C1. Each of the four flags \<open>posted_new\<close>, \<open>posted_7day_reminder\<close>,
  \<open>posted_3day_reminder\<close> and \<open>posted_last_day\<close> is monotonic. For every row id and every
  flag, a sequence of calls of \<open>upsert_comment_period\<close>, whichever of them succeed, leaves
  the flag as it was: a flag that is set stays set, and no call sets one. After a call of
  \<open>mark_posted\<close> a flag is set exactly when it was set before, or it is the flag of the
  post type in the row of the given id: the call sets that one flag and resets none.
\<close>

theorem flag_monotonicity:
  assumes "f \<in> set flag_fields"
  shows "flag_set (upsert_seq calls db) i f = flag_set db i f
       \<and> (\<forall>period_id post_type post_uri db'.
            mark_posted period_id post_type post_uri db = Inr db' \<longrightarrow>
            flag_set db' i f =
              (flag_set db i f
               \<or> (i = period_id \<and> field_map post_type = Some f
                    \<and> list_ex (\<lambda>r. r ''id'' = Num period_id) (periods db))))"
  using upsert_seq_flag_set [OF assms] mark_posted_flag_set by blast

theorem flag_monotonicity_witness:
  "''posted_new'' \<in> set flag_fields
   \<and> \<not> flag_set ex_db 1 ''posted_new''
   \<and> (\<exists>db'. mark_posted 1 ''new'' None ex_db = Inr db'
         \<and> flag_set db' 1 ''posted_new''
         \<and> flag_set (upsert_seq [(''2026-01-02 00:00:00'', ex_draft1), (''2026-01-03 00:00:00'', ex_draft2)] db') 1 ''posted_new'')"
proof -
  have f: "''posted_new'' \<in> set flag_fields" by (simp add: flag_fields_def)
  have n: "\<not> flag_set ex_db 1 ''posted_new''"
    by (simp add: flag_set_def ex_db_def ex_row_def default_row_def)
  obtain db' where m: "mark_posted 1 ''new'' None ex_db = Inr db'"
    by (simp add: mark_posted_def field_map_def)
  have e: "list_ex (\<lambda>r. r ''id'' = Num 1) (periods ex_db)"
    by (simp add: ex_db_def ex_row_def default_row_def)
  have fm: "field_map ''new'' = Some ''posted_new''" by (simp add: field_map_def)
  have s: "flag_set db' 1 ''posted_new''"
    using flag_monotonicity [OF f, of "[]" ex_db 1] m e fm by blast
  have "flag_set (upsert_seq [(''2026-01-02 00:00:00'', ex_draft1), (''2026-01-03 00:00:00'', ex_draft2)] db') 1 ''posted_new''"
    using flag_monotonicity [OF f, of "[(''2026-01-02 00:00:00'', ex_draft1), (''2026-01-03 00:00:00'', ex_draft2)]" db' 1] s by blast
  then show ?thesis using f n m s by blast
qed

text \<open>
  Two calls for the same document, in terms of the columns the statements name: valid for
  every pair of drafts the table accepts.
\<close>

lemma zip_fields:
  "zip (fields_of d) (values_of d) =
     [(''document_id'', sql_text (document_id d)), (''docket_id'', sql_text (docket_id d)),
      (''title'', sql_text (title d)), (''agency_id'', sql_text (agency_id d)),
      (''agency_name'', sql_text (agency_name d)), (''posted_date'', sql_day (posted_date d)),
      (''comment_end_date'', sql_day (comment_end_date d)),
      (''regulations_url'', sql_text (regulations_url d))]
     @ provided_items (kwargs d)"
  by (simp add: fields_of_def values_of_def base_fields_def zip_map_fst_snd)

lemma provided_items_not_null: "(k, v) \<in> set (provided_items kw) \<Longrightarrow> v \<noteq> Null"
  by (auto simp: provided_items_value provided_optional_def split: option.splits if_splits)

lemma present_all:
  assumes "accepted d" and "docket_id d \<noteq> None"
  shows "present d = zip (fields_of d) (values_of d)"
proof -
  have "\<forall>x \<in> set (zip (fields_of d) (values_of d)). (\<lambda>(f, v). v \<noteq> Null) x"
    using assms provided_items_not_null [of _ _ "kwargs d"]
    by (auto simp: zip_fields accepted_def sql_text_def sql_day_def split: option.splits)
  then show ?thesis unfolding present_def by (simp add: filter_id_conv)
qed

lemma present_subset: "set (present d) \<subseteq> set (zip (fields_of d) (values_of d))"
  by (auto simp: present_def)

lemma upsert_twice:
  assumes uniq: "distinct (map (\<lambda>r. r ''document_id'') (periods db))"
    and same: "document_id d2 = document_id d1"
    and ok1: "accepted d1"
    and ok2: "accepted d2"
  shows "\<exists>i db1 db2 r.
           upsert_comment_period now1 d1 db = Inr (i, db1)
         \<and> upsert_comment_period now2 d2 db1 = Inr (i, db2)
         \<and> filter (has_document (document_id d1)) (periods db2) = [r]
         \<and> row_id r = i
         \<and> (\<forall>f v. (f, v) \<in> set (zip (fields_of d2) (values_of d2)) \<longrightarrow> r f = v)
         \<and> (\<forall>f v. (f, v) \<in> set (zip (fields_of d1) (values_of d1))
                \<longrightarrow> f \<notin> set (fields_of d2) \<longrightarrow> r f = v)"
proof -
  obtain i db1 where u1: "upsert_comment_period now1 d1 db = Inr (i, db1)"
    using upsert_succeeds [OF ok1] by blast
  obtain j db2 where u2: "upsert_comment_period now2 d2 db1 = Inr (j, db2)"
    using upsert_succeeds [OF ok2] by blast
  obtain s where s: "document_id d1 = Some s" using ok1 by (auto simp: accepted_def)
  obtain r1 where r1: "find (has_document (document_id d1)) (periods db1) = Some r1"
      "row_id r1 = i" "\<And>f v. (f, v) \<in> set (zip (fields_of d1) (values_of d1)) \<Longrightarrow> r1 f = v"
    using upsert_row [OF u1] by blast
  obtain r2 where r2: "find (has_document (document_id d1)) (periods db2) = Some r2"
      "row_id r2 = j" "\<And>f v. (f, v) \<in> set (zip (fields_of d2) (values_of d2)) \<Longrightarrow> r2 f = v"
      "\<And>old f. find (has_document (document_id d1)) (periods db1) = Some old
          \<Longrightarrow> f \<notin> set (fields_of d2) \<Longrightarrow> f \<noteq> ''updated_at'' \<Longrightarrow> r2 f = old f"
    using upsert_row [OF u2] unfolding same by blast
  have ji: "j = i"
    using upsert_update [of d2 db1 r1 now2] r1(1,2) u2 ok2 same by simp
  have d1: "distinct (map (\<lambda>r. r ''document_id'') (periods db1))"
    using upsert_distinct [OF u1 uniq] .
  have d2: "distinct (map (\<lambda>r. r ''document_id'') (periods db2))"
    using upsert_distinct [OF u2 d1] .
  have h: "has_document (document_id d1) = (\<lambda>r. r ''document_id'' = Text s)"
    using s by (simp add: has_document_def fun_eq_iff)
  have one: "filter (has_document (document_id d1)) (periods db2) = [r2]"
    using find_unique [OF d2, of "Text s" r2] r2(1) unfolding h by simp
  have keep: "r2 f = v" if "(f, v) \<in> set (zip (fields_of d1) (values_of d1))" "f \<notin> set (fields_of d2)" for f v
  proof -
    have "f \<in> set base_fields \<union> set optional_fields"
      using that(1) excluded_keys [of d1] by force
    then have "f \<noteq> ''updated_at''" by (auto simp: base_fields_def optional_fields_def)
    then have "r2 f = r1 f" using r2(4) [OF r1(1) that(2)] by simp
    then show ?thesis using r1(3) [OF that(1)] by simp
  qed
  show ?thesis using u1 u2 ji one r2(2,3) keep by blast
qed

text \<open>
  Claim C2, as the code has it. \<open>upsert_comment_period\<close> is idempotent on
  \<open>document_id\<close>. For two drafts with the same \<open>document_id\<close> that the table accepts (the
  parameters of the columns \<open>NOT NULL\<close> given, \<open>comment_end_date\<close> not before
  \<open>posted_date\<close>), the second with its \<open>docket_id\<close> given, on a table that holds no
  \<open>document_id\<close> twice: both calls succeed and return the same id; afterwards exactly one
  row has this \<open>document_id\<close>, it has that id, it holds the value of the second draft in
  every field present in the second draft, and the value of the first draft in every field
  present in the first draft and absent from the second. A field is present when it is a
  named parameter or a whitelisted keyword, and its value is not \<open>None\<close>.
\<close>

theorem upsert_idempotent:
  assumes uniq: "distinct (map (\<lambda>r. r ''document_id'') (periods db))"
    and same: "document_id d2 = document_id d1"
    and ok1: "accepted d1"
    and ok2: "accepted d2"
    and docket: "docket_id d2 \<noteq> None"
  shows "\<exists>i db1 db2 r.
           upsert_comment_period now1 d1 db = Inr (i, db1)
         \<and> upsert_comment_period now2 d2 db1 = Inr (i, db2)
         \<and> filter (has_document (document_id d1)) (periods db2) = [r]
         \<and> row_id r = i
         \<and> (\<forall>f v. (f, v) \<in> set (present d2) \<longrightarrow> r f = v)
         \<and> (\<forall>f v. (f, v) \<in> set (present d1) \<longrightarrow> f \<notin> fst ` set (present d2) \<longrightarrow> r f = v)"
proof -
  have p2: "present d2 = zip (fields_of d2) (values_of d2)"
    using present_all [OF ok2 docket] .
  have k2: "fst ` set (present d2) = set (fields_of d2)"
    unfolding p2 using length_fields [of d2]
    by (metis list.set_map map_fst_zip)
  obtain i db1 db2 r where r:
      "upsert_comment_period now1 d1 db = Inr (i, db1)"
      "upsert_comment_period now2 d2 db1 = Inr (i, db2)"
      "filter (has_document (document_id d1)) (periods db2) = [r]"
      "row_id r = i"
      "\<And>f v. (f, v) \<in> set (zip (fields_of d2) (values_of d2)) \<Longrightarrow> r f = v"
      "\<And>f v. (f, v) \<in> set (zip (fields_of d1) (values_of d1))
          \<Longrightarrow> f \<notin> set (fields_of d2) \<Longrightarrow> r f = v"
    using upsert_twice [OF uniq same ok1 ok2, of now1 now2] by blast
  have a: "\<forall>f v. (f, v) \<in> set (present d2) \<longrightarrow> r f = v"
    using r(5) present_subset [of d2] by blast
  have b: "\<forall>f v. (f, v) \<in> set (present d1) \<longrightarrow> f \<notin> fst ` set (present d2) \<longrightarrow> r f = v"
    using r(6) present_subset [of d1] unfolding k2 by blast
  show ?thesis using r(1-4) a b by blast
qed

lemma ex_draft_present:
  "(''title'', Text ''Clean Water Standards (Updated)'') \<in> set (present ex_draft2)"
  "(''abstract'', Text ''Proposed standards - UPDATED'') \<in> set (present ex_draft2)"
  "(''topics'', Text ''environment'') \<in> set (present ex_draft1)"
  "''topics'' \<notin> fst ` set (present ex_draft2)"
  by (simp_all add: present_def zip_fields ex_draft1_def ex_draft2_def sql_text_def sql_day_def
      provided_items_def provided_optional_def optional_fields_def map_filter_def)

lemma ex_draft_accepted: "accepted ex_draft1" "accepted ex_draft2" "accepted ex_draft3"
  by (simp_all add: accepted_def ex_draft1_def ex_draft2_def ex_draft3_def)

theorem upsert_idempotent_witness:
  "\<exists>i db1 db2 r.
      upsert_comment_period ''2026-01-02 00:00:00'' ex_draft1 empty_db = Inr (i, db1)
    \<and> upsert_comment_period ''2026-01-03 00:00:00'' ex_draft2 db1 = Inr (i, db2)
    \<and> filter (has_document (Some ''EPA-HQ-OW-2024-0123'')) (periods db2) = [r]
    \<and> row_id r = i
    \<and> r ''title'' = Text ''Clean Water Standards (Updated)''
    \<and> r ''abstract'' = Text ''Proposed standards - UPDATED''
    \<and> r ''topics'' = Text ''environment''"
proof -
  have 1: "distinct (map (\<lambda>r. r ''document_id'') (periods empty_db))" by (simp add: empty_db_def)
  have 2: "document_id ex_draft2 = document_id ex_draft1" by (simp add: ex_draft1_def ex_draft2_def)
  have 3: "docket_id ex_draft2 \<noteq> None" by (simp add: ex_draft2_def)
  have 5: "document_id ex_draft1 = Some ''EPA-HQ-OW-2024-0123''" by (simp add: ex_draft1_def)
  show ?thesis
    using upsert_idempotent [OF 1 2 ex_draft_accepted(1,2) 3,
        of "''2026-01-02 00:00:00''" "''2026-01-03 00:00:00''"]
      ex_draft_present unfolding 5 by blast
qed

text \<open>
  The claim as the specification words it, for any two drafts, fails: the named parameters
  are written by every call, whatever their value. After a draft with a \<open>docket_id\<close>, the
  same draft from a document whose \<open>docketId\<close> is \<open>null\<close> is accepted, and the one row of
  the document then holds \<open>NULL\<close> for \<open>docket_id\<close>: a field present in the first draft and
  absent from the second is erased.
\<close>

theorem upsert_idempotent_counterexample:
  "\<exists>i db1 db2 r.
      upsert_comment_period ''2026-01-02 00:00:00'' ex_draft1 empty_db = Inr (i, db1)
    \<and> upsert_comment_period ''2026-01-03 00:00:00'' ex_draft3 db1 = Inr (i, db2)
    \<and> filter (has_document (Some ''EPA-HQ-OW-2024-0123'')) (periods db2) = [r]
    \<and> (''docket_id'', Text ''EPA-HQ-OW-2024-0123'') \<in> set (present ex_draft1)
    \<and> ''docket_id'' \<notin> fst ` set (present ex_draft3)
    \<and> r ''docket_id'' = Null"
proof -
  have 1: "distinct (map (\<lambda>r. r ''document_id'') (periods empty_db))" by (simp add: empty_db_def)
  have 2: "document_id ex_draft3 = document_id ex_draft1"
    by (simp add: ex_draft1_def ex_draft2_def ex_draft3_def)
  have 5: "document_id ex_draft1 = Some ''EPA-HQ-OW-2024-0123''" by (simp add: ex_draft1_def)
  have p: "(''docket_id'', Text ''EPA-HQ-OW-2024-0123'') \<in> set (present ex_draft1)"
    "''docket_id'' \<notin> fst ` set (present ex_draft3)"
    by (simp_all add: present_def zip_fields ex_draft1_def ex_draft2_def ex_draft3_def sql_text_def
        sql_day_def provided_items_def provided_optional_def optional_fields_def map_filter_def)
  have n: "(''docket_id'', Null) \<in> set (zip (fields_of ex_draft3) (values_of ex_draft3))"
    using base_members(2) [of ex_draft3] by (simp add: ex_draft3_def sql_text_def)
  show ?thesis
    using upsert_twice [OF 1 2 ex_draft_accepted(1,3),
        of "''2026-01-02 00:00:00''" "''2026-01-03 00:00:00''"] p n
    unfolding 5 by blast
qed

text \<open>
  Claim C3. For \<open>days\<close> among 7, 3 and 1, \<open>get_closing_soon\<close> returns exactly the rows
  whose \<open>comment_end_date\<close> is the day \<open>today + days\<close> and whose flag of that milestone is
  still 0, each as often as the table holds it. For the query of 7 days, a row that ends on
  \<open>today + 7\<close> with its flag at 0 is returned, and a row that ends on \<open>today + 8\<close> is not.
\<close>

theorem closing_soon_exact_date:
  assumes "days = 7 \<or> days = 3 \<or> days = 1"
  shows "\<exists>rs. get_closing_soon today days db = Inr rs
           \<and> mset rs = mset (filter (\<lambda>r. r ''comment_end_date'' = Day (today + days)
                   \<and> r (if days = 7 then ''posted_7day_reminder''
                         else if days = 3 then ''posted_3day_reminder''
                         else ''posted_last_day'') = Num 0) (periods db))
           \<and> (\<forall>r \<in> set (periods db). days = 7 \<longrightarrow>
                 (r ''comment_end_date'' = Day (today + 7) \<and> r ''posted_7day_reminder'' = Num 0
                    \<longrightarrow> r \<in> set rs)
                 \<and> (r ''comment_end_date'' = Day (today + 8) \<longrightarrow> r \<notin> set rs))"
proof -
  let ?f = "if days = 7 then ''posted_7day_reminder''
            else if days = 3 then ''posted_3day_reminder'' else ''posted_last_day''"
  have f: "reminder_field days = Inr ?f"
    using assms by (auto simp: reminder_field_def)
  let ?rs = "select_closing (today + days) ?f db"
  have 1: "get_closing_soon today days db = Inr ?rs"
    by (simp add: get_closing_soon_def f)
  have 2: "mset ?rs = mset (filter (\<lambda>r. r ''comment_end_date'' = Day (today + days) \<and> r ?f = Num 0) (periods db))"
    by (simp add: select_closing_def)
  have 3: "set ?rs = {r \<in> set (periods db). r ''comment_end_date'' = Day (today + days) \<and> r ?f = Num 0}"
    by (simp add: select_closing_def)
  have 4: "\<forall>r \<in> set (periods db). days = 7 \<longrightarrow>
                 (r ''comment_end_date'' = Day (today + 7) \<and> r ''posted_7day_reminder'' = Num 0
                    \<longrightarrow> r \<in> set ?rs)
                 \<and> (r ''comment_end_date'' = Day (today + 8) \<longrightarrow> r \<notin> set ?rs)"
    unfolding 3 by auto
  show ?thesis using 1 2 4 by blast
qed

lemma ex_row_a: "ex_row 1 ''EPA-HQ-OW-2024-0123'' 107 ''comment_end_date'' = Day 107"
  "ex_row 1 ''EPA-HQ-OW-2024-0123'' 107 ''posted_7day_reminder'' = Num 0"
  "ex_row 2 ''FDA-2024-N-5678'' 108 ''comment_end_date'' = Day 108"
  by (simp_all add: ex_row_def default_row_def)

theorem closing_soon_exact_date_witness:
  "\<exists>rs. get_closing_soon 100 7 ex_db = Inr rs
     \<and> ex_row 1 ''EPA-HQ-OW-2024-0123'' 107 \<in> set rs
     \<and> ex_row 2 ''FDA-2024-N-5678'' 108 \<notin> set rs
     \<and> size (mset rs) = 1"
proof -
  have d: "(7::int) = 7 \<or> (7::int) = 3 \<or> (7::int) = 1" by simp
  obtain rs where rs: "get_closing_soon 100 7 ex_db = Inr rs"
    "mset rs = mset (filter (\<lambda>r. r ''comment_end_date'' = Day (100 + 7)
                   \<and> r (if (7::int) = 7 then ''posted_7day_reminder''
                         else if (7::int) = 3 then ''posted_3day_reminder''
                         else ''posted_last_day'') = Num 0) (periods ex_db))"
    "\<forall>r \<in> set (periods ex_db). (7::int) = 7 \<longrightarrow>
                 (r ''comment_end_date'' = Day (100 + 7) \<and> r ''posted_7day_reminder'' = Num 0
                    \<longrightarrow> r \<in> set rs)
                 \<and> (r ''comment_end_date'' = Day (100 + 8) \<longrightarrow> r \<notin> set rs)"
    using closing_soon_exact_date [OF d, of 100 ex_db] by blast
  have "ex_row 1 ''EPA-HQ-OW-2024-0123'' 107 \<in> set rs"
    using rs(3) ex_row_a by (simp add: ex_db_def)
  moreover have "ex_row 2 ''FDA-2024-N-5678'' 108 \<notin> set rs"
    using rs(3) ex_row_a by (simp add: ex_db_def)
  moreover have "size (mset rs) = 1"
    unfolding rs(2) using ex_row_a by (simp add: ex_db_def)
  ultimately show ?thesis using rs(1) by blast
qed

text \<open>
  Claim C10. A keyword argument whose value is \<open>None\<close>, and a keyword argument whose name is
  not one of the nine optional fields, change nothing: the call is the call without that
  argument, in its result and in the table it leaves. An optional field given as \<open>None\<close>
  keeps the value the row of the document had before the call.
\<close>

theorem upsert_none_and_unknown_kwargs:
  assumes "kwargs d k = Some Null \<or> k \<notin> set optional_fields"
  shows "upsert_comment_period now d db
           = upsert_comment_period now (d\<lparr>kwargs := (kwargs d)(k := None)\<rparr>) db
       \<and> (\<forall>i db' old. k \<in> set optional_fields
             \<longrightarrow> upsert_comment_period now d db = Inr (i, db')
             \<longrightarrow> find (has_document (document_id d)) (periods db) = Some old
             \<longrightarrow> (\<exists>new. find (has_document (document_id d)) (periods db') = Some new
                     \<and> new k = old k))"
proof (intro conjI allI impI)
  show "upsert_comment_period now d db
           = upsert_comment_period now (d\<lparr>kwargs := (kwargs d)(k := None)\<rparr>) db"
    using upsert_drop [OF assms] by simp
next
  fix i db' old
  assume k: "k \<in> set optional_fields"
    and u: "upsert_comment_period now d db = Inr (i, db')"
    and o: "find (has_document (document_id d)) (periods db) = Some old"
  have n: "kwargs d k = Some Null \<or> kwargs d k = None" using assms k by simp
  have a: "k \<notin> set (fields_of d)" using null_value_absent [OF k n] .
  have b: "k \<noteq> ''updated_at''" using k by (auto simp: optional_fields_def)
  show "\<exists>new. find (has_document (document_id d)) (periods db') = Some new \<and> new k = old k"
    using upsert_row [OF u] o a b by blast
qed

theorem upsert_none_and_unknown_kwargs_witness:
  "kwargs ex_draft2 ''topics'' = Some Null
   \<and> ''posted_new'' \<notin> set optional_fields
   \<and> upsert_comment_period ''2026-01-03 00:00:00'' ex_draft2 ex_db
       = upsert_comment_period ''2026-01-03 00:00:00''
           (ex_draft2\<lparr>kwargs := (kwargs ex_draft2)(''posted_new'' := None)\<rparr>) ex_db
   \<and> (\<exists>i db' new. upsert_comment_period ''2026-01-03 00:00:00'' ex_draft2 ex_db = Inr (i, db')
         \<and> find (has_document (Some ''EPA-HQ-OW-2024-0123'')) (periods db') = Some new
         \<and> new ''topics'' = Text ''food'')"
proof -
  have t: "kwargs ex_draft2 ''topics'' = Some Null" by (simp add: ex_draft2_def)
  have p: "''posted_new'' \<notin> set optional_fields" by (simp add: optional_fields_def)
  have o: "''topics'' \<in> set optional_fields" by (simp add: optional_fields_def)
  have d: "document_id ex_draft2 = Some ''EPA-HQ-OW-2024-0123''" by (simp add: ex_draft2_def)
  obtain i db' where u: "upsert_comment_period ''2026-01-03 00:00:00'' ex_draft2 ex_db = Inr (i, db')"
    using upsert_succeeds [OF ex_draft_accepted(2)] by blast
  have f: "find (has_document (document_id ex_draft2)) (periods ex_db) = Some (ex_row 1 ''EPA-HQ-OW-2024-0123'' 107)"
    by (simp add: d ex_db_def has_document_def ex_row_def)
  have v: "ex_row 1 ''EPA-HQ-OW-2024-0123'' 107 ''topics'' = Text ''food''"
    by (simp add: ex_row_def)
  obtain new where "find (has_document (document_id ex_draft2)) (periods db') = Some new"
      "new ''topics'' = ex_row 1 ''EPA-HQ-OW-2024-0123'' 107 ''topics''"
    using upsert_none_and_unknown_kwargs [of ex_draft2 "''topics''" "''2026-01-03 00:00:00''" ex_db] t o u f
    by blast
  then have n: "\<exists>new. find (has_document (Some ''EPA-HQ-OW-2024-0123'')) (periods db') = Some new \<and> new ''topics'' = Text ''food''"
    using d v by auto
  have e: "upsert_comment_period ''2026-01-03 00:00:00'' ex_draft2 ex_db
       = upsert_comment_period ''2026-01-03 00:00:00''
           (ex_draft2\<lparr>kwargs := (kwargs ex_draft2)(''posted_new'' := None)\<rparr>) ex_db"
    using upsert_none_and_unknown_kwargs [of ex_draft2 "''posted_new''" "''2026-01-03 00:00:00''" ex_db] p
    by blast
  show ?thesis using t p e u n by blast
qed

section \<open>Properties of the fetch engine\<close>

lemma fetch_loop_gets: "length (filter is_get (snd (fetch_loop py server as))) \<le> length as"
  by (induction as) (auto simp: and_then_def py_sleep_def split: outcome.splits sum.splits if_splits)

lemma fetch_loop_transient:
  "\<forall>a \<in> set as. transient (server a) \<Longrightarrow>
   fetch_loop py server as = (Inr None, concat (map (\<lambda>a. [Get a, Sleep (2 ^ a)]) as))"
proof (induction as)
  case Nil
  then show ?case by simp
next
  case (Cons a as)
  then have t: "transient (server a)" and rest: "fetch_loop py server as = (Inr None, concat (map (\<lambda>a. [Get a, Sleep (2 ^ a)]) as))"
    by simp_all
  show ?case
  proof (cases "server a")
    case (Responded r)
    then show ?thesis using t rest by (simp add: and_then_def)
  qed (use t rest in \<open>simp_all add: and_then_def\<close>)
qed

text \<open>
  Claim C4, as the code has it. On a response 429 whose header \<open>Retry-After\<close> is absent or
  holds an integer that \<open>int\<close> reads, not negative and not beyond what \<open>time.sleep\<close>
  accepts, \<open>fetch_page\<close> sleeps that many seconds, 60 when the header is absent, and goes
  on with the next attempt of its loop. The response uses up one of the \<open>max_retries\<close>
  attempts: after a 429 on the last attempt \<open>fetch_page\<close> returns \<open>None\<close>, and
  \<open>fetch_page\<close> never sends more than \<open>max_retries\<close> requests.
\<close>

theorem rate_limit_uses_attempt:
  assumes "server attempt = Responded r" and "status_code r = 429"
    and "(headers r ''Retry-After'' = None \<and> secs = 60)
         \<or> (\<exists>s. headers r ''Retry-After'' = Some s \<and> py_int py s = Inr secs)"
    and "0 \<le> secs" and "secs \<le> sleep_max py"
  shows "fetch_loop py server (attempt # rest)
           = and_then [Get attempt, Sleep secs] (fetch_loop py server rest)
       \<and> fetch_loop py server [attempt] = (Inr None, [Get attempt, Sleep secs])
       \<and> length (filter is_get (snd (fetch_page py server max_retries))) \<le> nat max_retries"
proof -
  have s: "retry_after_seconds py r = Inr secs"
    using assms(3) by (auto simp: retry_after_seconds_def)
  have 1: "fetch_loop py server (attempt # xs) = and_then [Get attempt, Sleep secs] (fetch_loop py server xs)" for xs
    using assms(1,2,4,5) s by (simp add: py_sleep_def)
  have 2: "length (filter is_get (snd (fetch_page py server max_retries))) \<le> nat max_retries"
    using fetch_loop_gets [of py server "[0..<nat max_retries]"] by (simp add: fetch_page_def)
  show ?thesis using 1 [of rest] 1 [of "[]"] 2 by (simp add: and_then_def)
qed

theorem rate_limit_uses_attempt_witness:
  "fetch_loop ex_platform (\<lambda>k. Responded r429_120) [2] = (Inr None, [Get 2, Sleep 120])
   \<and> fetch_loop ex_platform (\<lambda>k. Responded r429) [2] = (Inr None, [Get 2, Sleep 60])"
proof -
  have a: "py_int ex_platform ''120'' = Inr 120"
    by (simp add: py_int_def ex_platform_def strip_def is_space_def split_on_def is_digit_def
        digits_value_def Let_def)
  have h: "(headers r429_120 ''Retry-After'' = None \<and> (120::int) = 60)
         \<or> (\<exists>s. headers r429_120 ''Retry-After'' = Some s \<and> py_int ex_platform s = Inr 120)"
    using a by (simp add: r429_120_def)
  have h': "(headers r429 ''Retry-After'' = None \<and> (60::int) = 60)
         \<or> (\<exists>s. headers r429 ''Retry-After'' = Some s \<and> py_int ex_platform s = Inr 60)"
    by (simp add: r429_def)
  have c: "status_code r429_120 = 429" "status_code r429 = 429"
    by (simp_all add: r429_120_def r429_def)
  have n: "(0::int) \<le> 120" "(0::int) \<le> 60" by simp_all
  have m: "120 \<le> sleep_max ex_platform" "60 \<le> sleep_max ex_platform"
    by (simp_all add: ex_platform_def)
  have 1: "fetch_loop ex_platform (\<lambda>k. Responded r429_120) [2] = (Inr None, [Get 2, Sleep 120])"
    using rate_limit_uses_attempt [of "\<lambda>k. Responded r429_120" 2 r429_120 120 ex_platform "[]" 3,
        OF refl c(1) h n(1) m(1)]
    by blast
  have 2: "fetch_loop ex_platform (\<lambda>k. Responded r429) [2] = (Inr None, [Get 2, Sleep 60])"
    using rate_limit_uses_attempt [of "\<lambda>k. Responded r429" 2 r429 60 ex_platform "[]" 3,
        OF refl c(2) h' n(2) m(2)]
    by blast
  show ?thesis using 1 2 by simp
qed

text \<open>
  The claim as the specification words it, that a 429 does not consume an attempt, fails:
  with the default of three attempts and a server that limits the rate three times and
  would answer the fourth request with 200, \<open>fetch_page\<close> sends three requests, sleeps
  60 seconds after each, and returns \<open>None\<close>.
\<close>

theorem rate_limit_uses_attempt_counterexample:
  "rate_limited_thrice 3 = Responded r200
   \<and> fetch_page ex_platform rate_limited_thrice default_max_retries
       = (Inr None, [Get 0, Sleep 60, Get 1, Sleep 60, Get 2, Sleep 60])"
  by (simp add: rate_limited_thrice_def fetch_page_def default_max_retries_def upt_rec r429_def
      retry_after_seconds_def py_sleep_def and_then_def ex_platform_def)

text \<open>
  Claim C7. A response 4xx other than 429 ends \<open>fetch_page\<close> at once with \<open>None\<close> and
  no further request. A response 5xx, a timeout and a connection error make it sleep
  \<open>2 ^ attempt\<close> seconds and go on with the next attempt. When every attempt up to
  \<open>max_retries\<close> meets one of these, \<open>fetch_page\<close> returns \<open>None\<close> after
  \<open>max_retries\<close> requests, each followed by its sleep. The default of \<open>max_retries\<close> is 3.
\<close>

theorem retry_policy:
  "(\<forall>r. server attempt = Responded r \<longrightarrow> 400 \<le> status_code r \<longrightarrow> status_code r < 500
        \<longrightarrow> status_code r \<noteq> 429
        \<longrightarrow> fetch_loop py server (attempt # rest) = (Inr None, [Get attempt]))
   \<and> (transient (server attempt)
        \<longrightarrow> fetch_loop py server (attempt # rest)
              = and_then [Get attempt, Sleep (2 ^ attempt)] (fetch_loop py server rest))
   \<and> ((\<forall>a < nat max_retries. transient (server a))
        \<longrightarrow> fetch_page py server max_retries
              = (Inr None, concat (map (\<lambda>a. [Get a, Sleep (2 ^ a)]) [0..<nat max_retries])))
   \<and> default_max_retries = 3"
proof (intro conjI allI impI)
  fix r
  assume "server attempt = Responded r" "400 \<le> status_code r" "status_code r < 500" "status_code r \<noteq> 429"
  then show "fetch_loop py server (attempt # rest) = (Inr None, [Get attempt])" by simp
next
  assume t: "transient (server attempt)"
  show "fetch_loop py server (attempt # rest) = and_then [Get attempt, Sleep (2 ^ attempt)] (fetch_loop py server rest)"
  proof (cases "server attempt")
    case (Responded r)
    then show ?thesis using t by simp
  qed (use t in simp_all)
next
  assume "\<forall>a < nat max_retries. transient (server a)"
  then have "\<forall>a \<in> set [0..<nat max_retries]. transient (server a)" by simp
  then show "fetch_page py server max_retries = (Inr None, concat (map (\<lambda>a. [Get a, Sleep (2 ^ a)]) [0..<nat max_retries]))"
    unfolding fetch_page_def by (rule fetch_loop_transient)
next
  show "default_max_retries = 3" by (simp add: default_max_retries_def)
qed

theorem retry_policy_witness:
  "fetch_loop ex_platform (\<lambda>k. Responded r404) [0, 1, 2] = (Inr None, [Get 0])
   \<and> fetch_page ex_platform always_failing default_max_retries
       = (Inr None, [Get 0, Sleep 1, Get 1, Sleep 2, Get 2, Sleep 4])"
proof -
  have 1: "fetch_loop ex_platform (\<lambda>k. Responded r404) [0, 1, 2] = (Inr None, [Get 0])"
    using retry_policy [of "\<lambda>k. Responded r404" 0 ex_platform "[1, 2]" 3]
    by (simp add: r404_def)
  have t: "\<forall>a < nat default_max_retries. transient (always_failing a)"
    by (simp add: always_failing_def r503_def)
  have "fetch_page ex_platform always_failing default_max_retries
       = (Inr None, concat (map (\<lambda>a. [Get a, Sleep (2 ^ a)]) [0..<nat default_max_retries]))"
    using retry_policy [of always_failing 0 ex_platform "[]" default_max_retries] t by blast
  then have 2: "fetch_page ex_platform always_failing default_max_retries
       = (Inr None, [Get 0, Sleep 1, Get 1, Sleep 2, Get 2, Sleep 4])"
    by (simp add: default_max_retries_def upt_rec)
  show ?thesis using 1 2 by simp
qed

lemma py_int_date: "py_int py ''Wed, 21 Oct 2015 07:28:00 GMT'' = Inl ValueError"
  by (simp add: py_int_def strip_def is_space_def split_on_def is_digit_def Let_def)

text \<open>
  Claim C8 says that no exception leaves \<open>fetch_page\<close>. On a response 429 whose header
  \<open>Retry-After\<close> holds an HTTP date, \<open>int\<close> raises \<open>ValueError\<close>, which none of the
  \<open>except\<close> clauses catches: the exception leaves \<open>fetch_page\<close> after the first request.
\<close>

theorem retry_after_date_escapes:
  "fetch_page py (\<lambda>k. Responded r429_date) default_max_retries = (Inl ValueError, [Get 0])"
  by (simp add: fetch_page_def default_max_retries_def upt_rec r429_date_def
      retry_after_seconds_def py_int_date)

section \<open>Properties of the pagination\<close>

lemma step_more:
  assumes "page_with_more fetched n docs"
  shows "page_step fetched n acc = Next (acc @ docs)"
proof -
  obtain r kvs m t where h: "fetched = Inr (Some r)" "response_ok r" "json r = Some (PDict kvs)"
      "map_of kvs ''data'' = Some (PList docs)" "map_of kvs ''meta'' = Some (PDict m)"
      "map_of m ''totalPages'' = Some (PInt t)" "n < t"
    using assms unfolding page_with_more_def by blast
  have c: "''data'' \<in> fst ` set kvs" using h(4) by (metis domI dom_map_of_conv_image_fst)
  show ?thesis using h c by (simp add: page_step_def)
qed

lemma step_fail:
  assumes "page_fails fetched"
  shows "page_step fetched n acc = Done (Inr acc)"
  using assms unfolding page_fails_def
  by (auto simp: page_step_def map_of_eq_None_iff)

lemma fetch_pages_fail_open:
  assumes "\<forall>p. start \<le> p \<and> p < start + int k \<longrightarrow> page_with_more (fetch p) p (items p)"
    and "page_fails (fetch (start + int k))"
  shows "fetch_pages fetch start acc = Some (Inr (acc @ concat (map items [start..start + int k - 1])))"
  using assms
proof (induction k arbitrary: start acc)
  case 0
  then show ?case by (subst fetch_pages.simps) (simp add: step_fail)
next
  case (Suc k)
  have more: "page_with_more (fetch start) start (items start)" using Suc.prems(1) by simp
  have "fetch_pages fetch (start + 1) (acc @ items start)
        = Some (Inr ((acc @ items start) @ concat (map items [start + 1..start + 1 + int k - 1])))"
  proof (rule Suc.IH)
    show "\<forall>p. start + 1 \<le> p \<and> p < start + 1 + int k \<longrightarrow> page_with_more (fetch p) p (items p)"
      using Suc.prems(1) by simp
    show "page_fails (fetch (start + 1 + int k))" using Suc.prems(2) by (simp add: add.commute add.left_commute)
  qed
  moreover have "[start..start + int (Suc k) - 1] = start # [start + 1..start + 1 + int k - 1]"
    by (simp add: upto_rec1)
  ultimately show ?case
    by (subst fetch_pages.simps) (simp add: step_more [OF more])
qed

text \<open>
  The failures the loop breaks on. When the pages 1 to \<open>n - 1\<close> are fetched and decoded
  and each announces more pages, and on page \<open>n\<close> \<open>fetch_page\<close> gives \<open>None\<close>, or the
  body is not JSON, or the decoded object has no key \<open>data\<close>, then
  \<open>get_new_comment_periods\<close> returns the documents of the pages 1 to \<open>n - 1\<close> in order.
\<close>

lemma pagination_breaks_keep_pages:
  assumes "1 \<le> n"
    and "\<forall>p. 1 \<le> p \<and> p < n \<longrightarrow> page_with_more (fetch p) p (items p)"
    and "page_fails (fetch n)"
  shows "get_new_comment_periods fetch = Some (Inr (concat (map items [1..n - 1])))"
proof -
  obtain k where k: "n = 1 + int k" using assms(1) by (metis nat_le_iff_add nat_int zle_iff_zadd)
  show ?thesis
    unfolding get_new_comment_periods_def
    using fetch_pages_fail_open [of 1 k fetch items "[]"] assms(2,3) k by simp
qed

lemma pagination_breaks_keep_pages_example:
  "page_with_more (ex_search 1) 1 ex_docs \<and> page_fails (ex_search 2)
   \<and> get_new_comment_periods ex_search = Some (Inr ex_docs)"
proof -
  have 1: "page_with_more (ex_search 1) 1 ex_docs"
    by (simp add: page_with_more_def ex_search_def ex_page1_def response_ok_def)
  have 2: "page_fails (ex_search 2)"
    by (simp add: page_fails_def ex_search_def)
  have 3: "\<forall>p. 1 \<le> p \<and> p < 2 \<longrightarrow> page_with_more (ex_search p) p ((\<lambda>p. ex_docs) p)"
  proof (intro allI impI)
    fix p :: int
    assume "1 \<le> p \<and> p < 2"
    then have "p = 1" by simp
    then show "page_with_more (ex_search p) p ((\<lambda>p. ex_docs) p)" using 1 by simp
  qed
  have 4: "(1::int) \<le> 2" by simp
  have "get_new_comment_periods ex_search = Some (Inr (concat (map (\<lambda>p. ex_docs) [1..2 - 1])))"
    using pagination_breaks_keep_pages [OF 4 3 2] .
  then show ?thesis using 1 2 by (simp add: upto_rec1)
qed

lemma ex_first_page:
  "page_with_more (ex_search_null 1) 1 ex_docs" "page_with_more (ex_search_date 1) 1 ex_docs"
  by (simp_all add: page_with_more_def ex_search_null_def ex_search_date_def ex_page1_def
      response_ok_def)

text \<open>
  Claim C5 says that the documents of the pages before a page that fails are returned.
  Two failures of the second page leave \<open>get_new_comment_periods\<close> as an exception, and
  the documents of the first page with it: a response 200 whose JSON body is \<open>null\<close>, on
  which \<open>'data' not in data\<close> raises \<open>TypeError\<close>, and a response 429 whose header
  \<open>Retry-After\<close> holds a date, on which \<open>fetch_page\<close> raises \<open>ValueError\<close>.
\<close>

theorem pagination_loses_pages:
  "get_new_comment_periods ex_search_null = Some (Inl TypeError)
   \<and> get_new_comment_periods ex_search_date = Some (Inl ValueError)"
proof -
  have a: "page_step (ex_search_null 2) 2 ex_docs = Done (Inl TypeError)"
    by (simp add: page_step_def ex_search_null_def response_ok_def)
  have "ex_search_date 2 = Inl ValueError"
    by (simp add: ex_search_date_def fetch_page_def default_max_retries_def upt_rec r429_date_def
        retry_after_seconds_def py_int_date)
  then have b: "page_step (ex_search_date 2) 2 ex_docs = Done (Inl ValueError)"
    by (simp add: page_step_def)
  have 1: "get_new_comment_periods ex_search_null = Some (Inl TypeError)"
    unfolding get_new_comment_periods_def
    by (subst fetch_pages.simps, simp add: step_more [OF ex_first_page(1)],
        subst fetch_pages.simps, simp add: a)
  have 2: "get_new_comment_periods ex_search_date = Some (Inl ValueError)"
    unfolding get_new_comment_periods_def
    by (subst fetch_pages.simps, simp add: step_more [OF ex_first_page(2)],
        subst fetch_pages.simps, simp add: b)
  show ?thesis using 1 2 by simp
qed

section \<open>Properties of the enrichment\<close>

lemma enhance_abstract:
  assumes "enhance period (PDict kvs) = Inr enhanced"
  shows "enhanced ''abstract'' =
           (if truthy (dict_get kvs ''abstract'') \<and> \<not> truthy (pget period ''abstract'')
            then Some (dict_get kvs ''abstract'') else period ''abstract'')"
  using assms by (auto simp: enhance_def Let_def split: sum.splits option.splits if_splits)

lemma enhance_frame:
  assumes "enhance period fr_doc = Inr enhanced"
    and "k \<noteq> ''abstract''" "k \<noteq> ''keywords''" "k \<noteq> ''document_type''"
  shows "enhanced k = period k"
  using assms by (auto simp: enhance_def Let_def split: pyval.splits sum.splits option.splits if_splits)

lemma enrich_cases:
  assumes "enrich_period fetch period = Inr enhanced"
  shows "enhanced = period \<or> (\<exists>n fr_doc. fr_doc_num period = Inr (Some n) \<and> n \<noteq> [] \<and> get_document fetch n = Inr fr_doc \<and> truthy fr_doc \<and> enhance period fr_doc = Inr enhanced)"
  using assms by (auto simp: enrich_period_def split: sum.splits option.splits if_splits)

lemma ex_fr_doc_num: "fr_doc_num ex_period = Inr (Some ''2026-00783'')"
  by (simp add: fr_doc_num_def ex_period_def pget_def split_on_def rstrip_slash_def)

lemma ex_get_document: "get_document ex_fr_fetch ''2026-00783'' = Inr ex_fr_doc"
  by (simp add: get_document_def ex_fr_fetch_def response_ok_def)

lemma ex_enrich:
  "enrich_period ex_fr_fetch ex_period
     = Inr (ex_period(''abstract'' \<mapsto> PStr ''X'', ''document_type'' \<mapsto> PStr ''Proposed rule.''))"
proof -
  have a: "pget ex_period ''abstract'' = PStr []" "pget ex_period ''document_type'' = PNone"
    by (simp_all add: ex_period_def pget_def)
  have "enhance ex_period ex_fr_doc
     = Inr (ex_period(''abstract'' \<mapsto> PStr ''X'', ''document_type'' \<mapsto> PStr ''Proposed rule.''))"
    by (simp add: enhance_def ex_fr_doc_def dict_get_def merged_keywords_def a)
  moreover have "truthy ex_fr_doc" by (simp add: ex_fr_doc_def)
  ultimately show ?thesis
    by (simp add: enrich_period_def ex_fr_doc_num ex_get_document)
qed

text \<open>
  Claim C6. In the dictionary \<open>enrich_period\<close> returns, when the abstract of the period is
  not empty, \<open>abstract\<close> is the abstract of the period, whatever the Federal Register
  document holds; when the abstract of the period is empty or absent and the document
  fetched for the period has an abstract that is not empty, \<open>abstract\<close> is the abstract of
  the document.
\<close>

theorem merge_abstract_precedence:
  assumes "enrich_period fetch period = Inr enhanced"
  shows "(truthy (pget period ''abstract'') \<longrightarrow> enhanced ''abstract'' = period ''abstract'')
       \<and> (\<forall>n kvs. \<not> truthy (pget period ''abstract'') \<longrightarrow> fr_doc_num period = Inr (Some n) \<longrightarrow> n \<noteq> []
             \<longrightarrow> get_document fetch n = Inr (PDict kvs) \<longrightarrow> truthy (dict_get kvs ''abstract'')
             \<longrightarrow> enhanced ''abstract'' = Some (dict_get kvs ''abstract''))"
proof (intro conjI impI allI)
  assume p: "truthy (pget period ''abstract'')"
  from enrich_cases [OF assms] show "enhanced ''abstract'' = period ''abstract''"
  proof
    assume "enhanced = period" then show ?thesis by simp
  next
    assume "\<exists>n fr_doc. fr_doc_num period = Inr (Some n) \<and> n \<noteq> [] \<and> get_document fetch n = Inr fr_doc \<and> truthy fr_doc \<and> enhance period fr_doc = Inr enhanced"
    then obtain fr_doc where e: "enhance period fr_doc = Inr enhanced" by blast
    then obtain kvs where "fr_doc = PDict kvs" by (auto simp: enhance_def split: pyval.splits)
    then show ?thesis using enhance_abstract [of period kvs enhanced] e p by simp
  qed
next
  fix n kvs
  assume h: "\<not> truthy (pget period ''abstract'')" "fr_doc_num period = Inr (Some n)" "n \<noteq> []"
     "get_document fetch n = Inr (PDict kvs)" "truthy (dict_get kvs ''abstract'')"
  have "kvs \<noteq> []" using h(5) by (auto simp: dict_get_def)
  then have "enhance period (PDict kvs) = Inr enhanced"
    using assms h by (simp add: enrich_period_def)
  then show "enhanced ''abstract'' = Some (dict_get kvs ''abstract'')"
    using enhance_abstract [of period kvs enhanced] h by simp
qed

theorem merge_abstract_precedence_witness:
  "\<exists>enhanced. enrich_period ex_fr_fetch ex_period = Inr enhanced
     \<and> \<not> truthy (pget ex_period ''abstract'')
     \<and> enhanced ''abstract'' = Some (PStr ''X'')"
proof -
  let ?e = "ex_period(''abstract'' \<mapsto> PStr ''X'', ''document_type'' \<mapsto> PStr ''Proposed rule.'')"
  have p: "\<not> truthy (pget ex_period ''abstract'')" by (simp add: ex_period_def pget_def)
  have n: "''2026-00783'' \<noteq> []" by simp
  have g: "get_document ex_fr_fetch ''2026-00783'' = Inr (PDict [(''abstract'', PStr ''X''), (''action'', PStr ''Proposed rule.'')])"
    using ex_get_document by (simp add: ex_fr_doc_def)
  have t: "truthy (dict_get [(''abstract'', PStr ''X''), (''action'', PStr ''Proposed rule.'')] ''abstract'')"
    "dict_get [(''abstract'', PStr ''X''), (''action'', PStr ''Proposed rule.'')] ''abstract'' = PStr ''X''"
    by (simp_all add: dict_get_def)
  have "?e ''abstract'' = Some (dict_get [(''abstract'', PStr ''X''), (''action'', PStr ''Proposed rule.'')] ''abstract'')"
    by (rule merge_abstract_precedence [OF ex_enrich, THEN conjunct2, rule_format, OF p ex_fr_doc_num n g t(1)])
  then show ?thesis using ex_enrich p t(2) by simp
qed

text \<open>
  Claim C9. \<open>enrich_period\<close> changes at most \<open>abstract\<close>, \<open>keywords\<close> and
  \<open>document_type\<close>: under every other key the dictionary it returns holds what the period
  holds. A period with no \<open>federal_register_url\<close>, or an empty one, is returned as it is.
\<close>

theorem enrich_frame:
  "(\<not> truthy (pget period ''federal_register_url'') \<longrightarrow> enrich_period fetch period = Inr period)
   \<and> (\<forall>enhanced k. enrich_period fetch period = Inr enhanced
        \<longrightarrow> k \<notin> {''abstract'', ''keywords'', ''document_type''} \<longrightarrow> enhanced k = period k)"
proof (intro conjI impI allI)
  assume "\<not> truthy (pget period ''federal_register_url'')"
  then show "enrich_period fetch period = Inr period"
    by (simp add: enrich_period_def fr_doc_num_def)
next
  fix enhanced k
  assume e: "enrich_period fetch period = Inr enhanced"
    and k: "k \<notin> {''abstract'', ''keywords'', ''document_type''}"
  from enrich_cases [OF e] show "enhanced k = period k"
  proof
    assume "enhanced = period" then show ?thesis by simp
  next
    assume "\<exists>n fr_doc. fr_doc_num period = Inr (Some n) \<and> n \<noteq> [] \<and> get_document fetch n = Inr fr_doc \<and> truthy fr_doc \<and> enhance period fr_doc = Inr enhanced"
    then obtain fr_doc where "enhance period fr_doc = Inr enhanced" by blast
    then show ?thesis using k by (intro enhance_frame) auto
  qed
qed

theorem enrich_frame_witness:
  "\<exists>enhanced. enrich_period ex_fr_fetch ex_period = Inr enhanced
     \<and> enhanced ''title'' = Some (PStr ''Clean Water Standards'')
     \<and> enrich_period ex_fr_fetch (ex_period(''federal_register_url'' := None))
         = Inr (ex_period(''federal_register_url'' := None))"
proof -
  let ?e = "ex_period(''abstract'' \<mapsto> PStr ''X'', ''document_type'' \<mapsto> PStr ''Proposed rule.'')"
  have k: "''title'' \<notin> {''abstract'', ''keywords'', ''document_type''}" by simp
  have "?e ''title'' = ex_period ''title''"
    by (rule enrich_frame [of ex_period ex_fr_fetch, THEN conjunct2, rule_format, OF ex_enrich k])
  then have 1: "?e ''title'' = Some (PStr ''Clean Water Standards'')"
    by (simp add: ex_period_def)
  have u: "\<not> truthy (pget (ex_period(''federal_register_url'' := None)) ''federal_register_url'')"
    by (simp add: pget_def)
  have 2: "enrich_period ex_fr_fetch (ex_period(''federal_register_url'' := None))
         = Inr (ex_period(''federal_register_url'' := None))"
    by (rule enrich_frame [of "ex_period(''federal_register_url'' := None)" ex_fr_fetch, THEN conjunct1, rule_format, OF u])
  show ?thesis using ex_enrich 1 2 by (intro exI [of _ ?e]) simp
qed

end
